theory Spec2Isabelle
  imports Complex_Main "HOL-Library.Char_ord" "HOL-Library.List_Lexorder"
    "HOL-Library.Product_Lexorder" "HOL-Library.AList"
begin

section \<open>Data model (app/scheduler/cp_lns.py)\<close>

text \<open>
  A \<^verbatim>\<open>datetime\<close> is an instant with microsecond resolution. The service
  normalises every instant to UTC before it reaches a scheduler, so an instant is modelled
  as the number of microseconds since a midnight (UTC) epoch; differences of instants
  (\<^verbatim>\<open>timedelta\<close>) are then integers as well, and
  \<^verbatim>\<open>total_seconds() / 60\<close> is the exact quotient by \<open>MICROS_PER_MINUTE\<close>
  (the source computes it in binary floating point; the model uses exact arithmetic).
\<close>

type_synonym datetime = int

datatype error = ZeroDivisionError | IndexError | KeyError | ValueError

record ScheduleTask =
  task_id :: string
  duration_minutes :: int
  earliest_start :: datetime
  due :: datetime
  priority :: int
  preferred_windows :: "(datetime \<times> datetime) list option"
  fixed_start :: "datetime option"

record ScheduleMeeting =
  meeting_id :: string
  meeting_start :: datetime
  meeting_end :: datetime

record ScheduleRequest =
  tasks :: "ScheduleTask list"
  meetings :: "ScheduleMeeting list"
  previous_assignments :: "(string \<times> (datetime \<times> datetime)) list option"
  neighborhood_window :: "(datetime \<times> datetime) option"

record AssignedTask =
  a_task_id :: string
  a_start :: datetime
  a_end :: datetime
  deviation_minutes :: int
  tardiness_minutes :: int

record ScheduleResult =
  assignments :: "AssignedTask list"
  unscheduled_tasks :: "string list"
  objective_value :: "int option"

section \<open>Time indexer\<close>

definition MICROS_PER_MINUTE :: int where
  "MICROS_PER_MINUTE = 60000000"

definition ceil_div :: "int \<Rightarrow> int \<Rightarrow> int" where
  "ceil_div a b = - ((- a) div b)"

record TimeIndexer =
  base :: datetime
  granularity :: int

definition to_slot :: "TimeIndexer \<Rightarrow> datetime \<Rightarrow> int" where
  "to_slot ix t = (t - base ix) div (MICROS_PER_MINUTE * granularity ix)"

definition to_slot_ceiling :: "TimeIndexer \<Rightarrow> datetime \<Rightarrow> int" where
  "to_slot_ceiling ix t = ceil_div (t - base ix) (MICROS_PER_MINUTE * granularity ix)"

definition to_datetime :: "TimeIndexer \<Rightarrow> int \<Rightarrow> datetime" where
  "to_datetime ix slot = base ix + slot * granularity ix * MICROS_PER_MINUTE"

definition duration_to_slots :: "TimeIndexer \<Rightarrow> int \<Rightarrow> int" where
  "duration_to_slots ix minutes = max 1 (ceil_div minutes (granularity ix))"

text \<open>Calendar fields of an instant (UTC): \<^verbatim>\<open>dt.minute\<close> and \<^verbatim>\<open>dt.hour\<close>.\<close>

definition minute_of :: "datetime \<Rightarrow> int" where
  "minute_of t = (t div MICROS_PER_MINUTE) mod 60"

definition hour_of :: "datetime \<Rightarrow> int" where
  "hour_of t = (t div (60 * MICROS_PER_MINUTE)) mod 24"

text \<open>\<^verbatim>\<open>dt.replace(second=0, microsecond=0)\<close>\<close>

definition floor_minute :: "datetime \<Rightarrow> datetime" where
  "floor_minute t = t - t mod MICROS_PER_MINUTE"

text \<open>\<^verbatim>\<open>max(xs, default=d)\<close>\<close>

definition max_default :: "int list \<Rightarrow> int \<Rightarrow> int" where
  "max_default xs d = (case xs of [] \<Rightarrow> d | x # rest \<Rightarrow> fold max rest x)"

text \<open>
  The base instant and the horizon, computed alike by both schedulers from a request with
  first task \<open>t\<close> and further tasks \<open>ts\<close>.
\<close>

definition base_start_of :: "int \<Rightarrow> ScheduleTask \<Rightarrow> ScheduleTask list \<Rightarrow> ScheduleMeeting list \<Rightarrow> datetime" where
  "base_start_of g t ts ms =
     (let base_start = fold min (map earliest_start ts @ map meeting_start ms) (earliest_start t);
          base_start = floor_minute base_start;
          minute_offset = minute_of base_start mod g
      in base_start - minute_offset * MICROS_PER_MINUTE)"

definition horizon_slots_of :: "TimeIndexer \<Rightarrow> ScheduleTask \<Rightarrow> ScheduleTask list \<Rightarrow> ScheduleMeeting list \<Rightarrow> int" where
  "horizon_slots_of ix t ts ms =
     (let horizon_end_candidate =
            max (max_default (map due (t # ts)) (base ix)) (max_default (map meeting_end ms) (base ix))
      in max (to_slot_ceiling ix horizon_end_candidate + 10) 10)"

section \<open>Segmentation of task durations (app/services/scheduling.py)\<close>

definition MAX_BLOCK_MINUTES :: int where
  "MAX_BLOCK_MINUTES = 120"

definition MIN_BLOCK_MINUTES :: int where
  "MIN_BLOCK_MINUTES = 15"

text \<open>
  One pass through the body of the \<^verbatim>\<open>while remaining > 0\<close> loop of
  \<^verbatim>\<open>_segment_duration\<close>: the chunk that is appended for a given \<open>remaining\<close>.
\<close>

definition segment_chunk :: "int \<Rightarrow> int" where
  "segment_chunk remaining =
     (let chunk = min MAX_BLOCK_MINUTES remaining;
          remainder = remaining - chunk;
          chunk = (if 0 < remainder \<and> remainder < MIN_BLOCK_MINUTES
                   then (let deficit = MIN_BLOCK_MINUTES - remainder;
                             adjustment = min deficit (chunk - MIN_BLOCK_MINUTES)
                         in chunk - adjustment)
                   else chunk)
      in max MIN_BLOCK_MINUTES (min chunk remaining))"

lemma segment_chunk_ge: "MIN_BLOCK_MINUTES \<le> segment_chunk remaining"
  by (simp add: segment_chunk_def Let_def)

function segment_loop :: "int \<Rightarrow> int list \<Rightarrow> int list" where
  "segment_loop remaining chunks =
     (if remaining > 0
      then segment_loop (remaining - segment_chunk remaining) (chunks @ [segment_chunk remaining])
      else chunks)"
  by pat_completeness auto
termination
proof (relation "measure (\<lambda>(remaining, chunks). nat remaining)")
  show "wf (measure (\<lambda>(remaining, chunks). nat remaining))" by simp
next
  fix remaining :: int and chunks :: "int list"
  assume "remaining > 0"
  moreover have "15 \<le> segment_chunk remaining"
    using segment_chunk_ge [of remaining] by (simp add: MIN_BLOCK_MINUTES_def)
  ultimately show "((remaining - segment_chunk remaining, chunks @ [segment_chunk remaining]),
      (remaining, chunks)) \<in> measure (\<lambda>(remaining, chunks). nat remaining)"
    by simp
qed

declare segment_loop.simps [simp del]

definition segment_duration :: "int \<Rightarrow> int list" where
  "segment_duration total_minutes = segment_loop (max total_minutes MIN_BLOCK_MINUTES) []"

section \<open>Squeaky-wheel scheduler (app/scheduler/swo.py)\<close>

record SWOScheduler =
  swo_granularity_minutes :: int
  max_iterations :: int
  unscheduled_penalty :: int
  deviation_weight :: int
  slack_weight :: int
  swo_working_day_start_hour :: int
  swo_working_day_end_hour :: int

record SegmentInfo =
  task :: ScheduleTask
  duration_slots :: int
  earliest_slot :: int
  latest_start_slot :: int
  due_slot :: int
  previous_start_slot :: "int option"

text \<open>
  Reading and writing the occupancy list the way Python indexes a list: a negative index
  counts from the end, an index outside the list raises \<^verbatim>\<open>IndexError\<close>.
\<close>

definition py_index :: "'a list \<Rightarrow> int \<Rightarrow> error + nat" where
  "py_index xs i =
     (if 0 \<le> i \<and> i < int (length xs) then Inr (nat i)
      else if i < 0 \<and> - int (length xs) \<le> i then Inr (nat (int (length xs) + i))
      else Inl IndexError)"

definition py_get :: "'a list \<Rightarrow> int \<Rightarrow> error + 'a" where
  "py_get xs i = (case py_index xs i of Inl e \<Rightarrow> Inl e | Inr j \<Rightarrow> Inr (xs ! j))"

definition py_set :: "'a list \<Rightarrow> int \<Rightarrow> 'a \<Rightarrow> error + 'a list" where
  "py_set xs i v = (case py_index xs i of Inl e \<Rightarrow> Inl e | Inr j \<Rightarrow> Inr (xs[j := v]))"

text \<open>
  \<^verbatim>\<open>all(not occupancy[idx] for idx in range(slot, end_slot))\<close>: the generator
  stops at the first occupied slot.
\<close>

function all_free :: "bool list \<Rightarrow> int \<Rightarrow> int \<Rightarrow> error + bool" where
  "all_free occupancy idx end_slot =
     (if idx < end_slot
      then (case py_get occupancy idx of
              Inl e \<Rightarrow> Inl e
            | Inr occupied \<Rightarrow> if occupied then Inr False else all_free occupancy (idx + 1) end_slot)
      else Inr True)"
  by pat_completeness auto
termination
  by (relation "measure (\<lambda>(occupancy, idx, end_slot). nat (end_slot - idx))") auto

declare all_free.simps [simp del]

text \<open>The \<^verbatim>\<open>while slot <= latest_start\<close> loop of \<^verbatim>\<open>_find_slot\<close>.\<close>

function find_slot_loop :: "SegmentInfo \<Rightarrow> bool list \<Rightarrow> int \<Rightarrow> int \<Rightarrow> error + int option" where
  "find_slot_loop info occupancy latest_start slot =
     (if slot \<le> latest_start
      then (let end_slot = slot + duration_slots info
            in if end_slot > due_slot info
               then find_slot_loop info occupancy latest_start (slot + 1)
               else (case all_free occupancy slot end_slot of
                       Inl e \<Rightarrow> Inl e
                     | Inr free \<Rightarrow>
                         if free then Inr (Some slot)
                         else find_slot_loop info occupancy latest_start (slot + 1)))
      else Inr None)"
  by pat_completeness auto
termination
  by (relation "measure (\<lambda>(info, occupancy, latest_start, slot). nat (latest_start + 1 - slot))") auto

declare find_slot_loop.simps [simp del]

definition find_slot :: "SegmentInfo \<Rightarrow> bool list \<Rightarrow> int \<Rightarrow> error + int option" where
  "find_slot info occupancy horizon_slots =
     (let latest_start = min (latest_start_slot info) (horizon_slots - duration_slots info)
      in find_slot_loop info occupancy latest_start (earliest_slot info))"

text \<open>
  \<^verbatim>\<open>for slot in range(start_slot, end_slot): occupancy[slot] = True\<close>
\<close>

function mark_occupied :: "bool list \<Rightarrow> int \<Rightarrow> int \<Rightarrow> error + bool list" where
  "mark_occupied occupancy slot end_slot =
     (if slot < end_slot
      then (case py_set occupancy slot True of
              Inl e \<Rightarrow> Inl e
            | Inr occupancy' \<Rightarrow> mark_occupied occupancy' (slot + 1) end_slot)
      else Inr occupancy)"
  by pat_completeness auto
termination
  by (relation "measure (\<lambda>(occupancy, slot, end_slot). nat (end_slot - slot))") auto

declare mark_occupied.simps [simp del]

text \<open>
  The state of one construction pass: the occupancy list, the dictionary
  \<^verbatim>\<open>assignments\<close> (insertion-ordered: storing under an existing key keeps the
  key's position) and the list \<^verbatim>\<open>unscheduled\<close>.
\<close>

type_synonym construct_state = "bool list \<times> (string \<times> int) list \<times> string list"

definition construct_step ::
  "(string \<Rightarrow> SegmentInfo option) \<Rightarrow> int \<Rightarrow> ScheduleTask \<Rightarrow> construct_state \<Rightarrow> error + construct_state" where
  "construct_step segment_infos horizon_slots t st =
     (case st of (occupancy, assigned, unscheduled) \<Rightarrow>
        (case segment_infos (task_id t) of
           None \<Rightarrow> Inl KeyError
         | Some info \<Rightarrow>
             (case find_slot info occupancy horizon_slots of
                Inl e \<Rightarrow> Inl e
              | Inr None \<Rightarrow> Inr (occupancy, assigned, unscheduled @ [task_id t])
              | Inr (Some start_slot) \<Rightarrow>
                  (case mark_occupied occupancy start_slot (start_slot + duration_slots info) of
                     Inl e \<Rightarrow> Inl e
                   | Inr occupancy' \<Rightarrow>
                       Inr (occupancy', AList.update (task_id t) start_slot assigned, unscheduled)))))"

fun construct_loop ::
  "(string \<Rightarrow> SegmentInfo option) \<Rightarrow> int \<Rightarrow> ScheduleTask list \<Rightarrow> construct_state \<Rightarrow> error + construct_state" where
  "construct_loop segment_infos horizon_slots [] st = Inr st"
| "construct_loop segment_infos horizon_slots (t # order) st =
     (case construct_step segment_infos horizon_slots t st of
        Inl e \<Rightarrow> Inl e
      | Inr st' \<Rightarrow> construct_loop segment_infos horizon_slots order st')"

definition construct_schedule ::
  "ScheduleTask list \<Rightarrow> (string \<Rightarrow> SegmentInfo option) \<Rightarrow> bool list \<Rightarrow> int
   \<Rightarrow> error + ((string \<times> int) list \<times> string list)" where
  "construct_schedule order segment_infos base_occupancy horizon_slots =
     (case construct_loop segment_infos horizon_slots order (base_occupancy, [], []) of
        Inl e \<Rightarrow> Inl e
      | Inr (occupancy, assigned, unscheduled) \<Rightarrow> Inr (assigned, unscheduled))"

definition build_assigned :: "TimeIndexer \<Rightarrow> SegmentInfo \<Rightarrow> string \<Rightarrow> int \<Rightarrow> AssignedTask" where
  "build_assigned ix info tid start_slot =
     (let end_slot = start_slot + duration_slots info;
          start_dt = to_datetime ix start_slot;
          end_dt = to_datetime ix end_slot;
          deviation = (case previous_start_slot info of
                         None \<Rightarrow> 0
                       | Some prev \<Rightarrow> \<bar>start_slot - prev\<bar> * granularity ix);
          tardiness = (if end_dt > due (task info)
                       then (end_dt - due (task info)) div MICROS_PER_MINUTE
                       else 0)
      in \<lparr>a_task_id = tid, a_start = start_dt, a_end = end_dt,
          deviation_minutes = deviation, tardiness_minutes = tardiness\<rparr>)"

fun build_items ::
  "(string \<Rightarrow> SegmentInfo option) \<Rightarrow> TimeIndexer \<Rightarrow> (string \<times> int) list \<Rightarrow> error + AssignedTask list" where
  "build_items segment_infos ix [] = Inr []"
| "build_items segment_infos ix ((tid, start_slot) # rest) =
     (case segment_infos tid of
        None \<Rightarrow> Inl KeyError
      | Some info \<Rightarrow>
          (case build_items segment_infos ix rest of
             Inl e \<Rightarrow> Inl e
           | Inr assigned \<Rightarrow> Inr (build_assigned ix info tid start_slot # assigned)))"

definition build_result ::
  "(string \<times> int) list \<Rightarrow> string list \<Rightarrow> (string \<Rightarrow> SegmentInfo option) \<Rightarrow> TimeIndexer
   \<Rightarrow> error + ScheduleResult" where
  "build_result assigned unscheduled segment_infos ix =
     (case build_items segment_infos ix assigned of
        Inl e \<Rightarrow> Inl e
      | Inr items \<Rightarrow>
          Inr \<lparr>assignments = sort_key a_start items, unscheduled_tasks = unscheduled,
               objective_value = None\<rparr>)"

text \<open>
  \<^verbatim>\<open>_evaluate_penalties\<close>: the penalty of one task id, a float in the source
  and an exact rational here.
\<close>

definition penalty_of ::
  "SWOScheduler \<Rightarrow> (string \<times> int) list \<Rightarrow> string list \<Rightarrow> string \<Rightarrow> SegmentInfo \<Rightarrow> error + rat" where
  "penalty_of cfg assigned unscheduled tid info =
     (if tid \<in> set unscheduled then Inr (of_int (unscheduled_penalty cfg))
      else (case map_of assigned tid of
              None \<Rightarrow> Inl KeyError
            | Some start_slot \<Rightarrow>
                (let end_slot = start_slot + duration_slots info;
                     slack = max 0 (due_slot info - end_slot);
                     deviation = (case previous_start_slot info of
                                    None \<Rightarrow> 0
                                  | Some prev \<Rightarrow> \<bar>start_slot - prev\<bar> * swo_granularity_minutes cfg)
                 in Inr (of_int (deviation_weight cfg * deviation)
                         + of_int (slack_weight cfg) * (1 / of_int (slack + 1))))))"

fun evaluate_penalties ::
  "SWOScheduler \<Rightarrow> (string \<times> int) list \<Rightarrow> string list \<Rightarrow> (string \<times> SegmentInfo) list
   \<Rightarrow> error + (string \<times> rat) list" where
  "evaluate_penalties cfg assigned unscheduled [] = Inr []"
| "evaluate_penalties cfg assigned unscheduled ((tid, info) # rest) =
     (case penalty_of cfg assigned unscheduled tid info of
        Inl e \<Rightarrow> Inl e
      | Inr p \<Rightarrow>
          (case evaluate_penalties cfg assigned unscheduled rest of
             Inl e \<Rightarrow> Inl e
           | Inr ps \<Rightarrow> Inr ((tid, p) # ps)))"

text \<open>Reading a penalty dictionary at a key that the source always stores.\<close>

definition penalty_at :: "(string \<times> rat) list \<Rightarrow> string \<Rightarrow> rat" where
  "penalty_at penalties tid = (case map_of penalties tid of None \<Rightarrow> 0 | Some p \<Rightarrow> p)"

text \<open>
  The items of the dictionary \<^verbatim>\<open>segment_infos\<close>, one entry per task id, the
  last task of an id giving its value.
\<close>

definition make_info ::
  "TimeIndexer \<Rightarrow> int \<Rightarrow> (string \<times> (datetime \<times> datetime)) list \<Rightarrow> ScheduleTask \<Rightarrow> SegmentInfo" where
  "make_info ix horizon_slots previous t =
     (let dur = duration_to_slots ix (duration_minutes t);
          earliest = to_slot_ceiling ix (earliest_start t);
          due_s = to_slot_ceiling ix (due t);
          latest = max earliest (min (due_s - dur) (horizon_slots - dur));
          prev = (case map_of previous (task_id t) of
                    None \<Rightarrow> None
                  | Some previous_assignment \<Rightarrow> Some (to_slot ix (fst previous_assignment)))
      in \<lparr>task = t, duration_slots = dur, earliest_slot = earliest, latest_start_slot = latest,
          due_slot = due_s, previous_start_slot = prev\<rparr>)"

definition segment_info_items ::
  "TimeIndexer \<Rightarrow> int \<Rightarrow> (string \<times> (datetime \<times> datetime)) list \<Rightarrow> ScheduleTask list
   \<Rightarrow> (string \<times> SegmentInfo) list" where
  "segment_info_items ix horizon_slots previous ts =
     fold (\<lambda>t items. AList.update (task_id t) (make_info ix horizon_slots previous t) items) ts []"

text \<open>
  The base occupancy: non-working slots, then the slots of meetings. The source compares
  \<^verbatim>\<open>dt.hour + dt.minute / 60\<close> with the integer bounds; as the fraction is
  below one, that is the comparison of \<^verbatim>\<open>dt.hour\<close> with the bounds.
\<close>

definition non_working :: "SWOScheduler \<Rightarrow> datetime \<Rightarrow> bool" where
  "non_working cfg dt =
     (hour_of dt < swo_working_day_start_hour cfg \<or> hour_of dt \<ge> swo_working_day_end_hour cfg)"

definition block_non_working :: "SWOScheduler \<Rightarrow> TimeIndexer \<Rightarrow> int \<Rightarrow> bool list \<Rightarrow> bool list" where
  "block_non_working cfg ix horizon_slots occupancy =
     (if swo_working_day_start_hour cfg > 0 \<or> swo_working_day_end_hour cfg < 24
      then fold (\<lambda>slot occ. if non_working cfg (to_datetime ix slot) then occ[nat slot := True] else occ)
             [0 .. horizon_slots - 1] occupancy
      else occupancy)"

text \<open>
  \<^verbatim>\<open>for slot in range(start_slot, end_slot): base_occupancy[slot] = True\<close> with
  both ends clamped into the list by the caller.
\<close>

definition mark_range :: "bool list \<Rightarrow> int \<Rightarrow> int \<Rightarrow> bool list" where
  "mark_range occupancy start_slot end_slot =
     fold (\<lambda>slot occ. occ[nat slot := True]) [start_slot .. end_slot - 1] occupancy"

definition base_occupancy_of ::
  "SWOScheduler \<Rightarrow> TimeIndexer \<Rightarrow> int \<Rightarrow> ScheduleMeeting list \<Rightarrow> bool list" where
  "base_occupancy_of cfg ix horizon_slots ms =
     fold (\<lambda>m occ. mark_range occ (max 0 (to_slot ix (meeting_start m)))
                                  (min horizon_slots (to_slot_ceiling ix (meeting_end m))))
       ms (block_non_working cfg ix horizon_slots (replicate (nat horizon_slots) False))"

text \<open>
  The iterations of \<^verbatim>\<open>schedule\<close>: \<open>n\<close> iterations are left, \<open>best\<close> holds
  \<^verbatim>\<open>(best_result, best_unscheduled, best_objective)\<close> once a pass has run.
  The threshold \<^verbatim>\<open>1e-6\<close> is the rational \<open>1 / 1000000\<close>.
\<close>

fun swo_iterate ::
  "SWOScheduler \<Rightarrow> TimeIndexer \<Rightarrow> (string \<times> SegmentInfo) list \<Rightarrow> bool list \<Rightarrow> int \<Rightarrow> nat
   \<Rightarrow> ScheduleTask list \<Rightarrow> (string \<times> rat) list \<Rightarrow> (ScheduleResult \<times> nat \<times> int) option
   \<Rightarrow> error + (ScheduleResult \<times> nat \<times> int) option" where
  "swo_iterate cfg ix items base_occ horizon_slots 0 order penalties best = Inr best"
| "swo_iterate cfg ix items base_occ horizon_slots (Suc n) order penalties best =
     (case construct_schedule order (map_of items) base_occ horizon_slots of
        Inl e \<Rightarrow> Inl e
      | Inr (assigned, unscheduled) \<Rightarrow>
     (case build_result assigned unscheduled (map_of items) ix of
        Inl e \<Rightarrow> Inl e
      | Inr result \<Rightarrow>
     (let objective = int (length unscheduled) * unscheduled_penalty cfg;
          best' = (case best of
                     None \<Rightarrow> Some (result, length unscheduled, objective)
                   | Some (br, bu, bo) \<Rightarrow>
                       if length unscheduled < bu \<or> (length unscheduled = bu \<and> objective < bo)
                       then Some (result, length unscheduled, objective)
                       else Some (br, bu, bo))
      in (case evaluate_penalties cfg assigned unscheduled items of
            Inl e \<Rightarrow> Inl e
          | Inr new_penalties \<Rightarrow>
         (let changed = list_ex (\<lambda>t. \<bar>penalty_at new_penalties (task_id t)
                                        - penalty_at penalties (task_id t)\<bar> > 1 / 1000000) order;
              new_order = sort_key (\<lambda>t. (- penalty_at new_penalties (task_id t),
                                           - priority t, earliest_start t)) order
          in if \<not> changed \<or> new_order = order then Inr best'
             else swo_iterate cfg ix items base_occ horizon_slots n new_order new_penalties best')))))"

definition swo_indexer :: "SWOScheduler \<Rightarrow> ScheduleTask \<Rightarrow> ScheduleTask list \<Rightarrow> ScheduleMeeting list \<Rightarrow> TimeIndexer" where
  "swo_indexer cfg t ts ms =
     \<lparr>base = base_start_of (swo_granularity_minutes cfg) t ts ms,
      granularity = swo_granularity_minutes cfg\<rparr>"

definition swo_schedule :: "SWOScheduler \<Rightarrow> ScheduleRequest \<Rightarrow> error + ScheduleResult" where
  "swo_schedule cfg request =
     (case tasks request of
        [] \<Rightarrow> Inr \<lparr>assignments = [], unscheduled_tasks = [], objective_value = Some 0\<rparr>
      | t # ts \<Rightarrow>
          if swo_granularity_minutes cfg = 0 then Inl ZeroDivisionError
          else
            (let ms = meetings request;
                 previous = (case previous_assignments request of None \<Rightarrow> [] | Some p \<Rightarrow> p);
                 ix = swo_indexer cfg t ts ms;
                 horizon_slots = horizon_slots_of ix t ts ms;
                 items = segment_info_items ix horizon_slots previous (t # ts);
                 order = sort_key (\<lambda>t. (- priority t, earliest_start t)) (t # ts);
                 base_occ = base_occupancy_of cfg ix horizon_slots ms;
                 penalties = map (\<lambda>t. (task_id t, 0)) (t # ts)
             in (case swo_iterate cfg ix items base_occ horizon_slots (nat (max_iterations cfg))
                        order penalties None of
                   Inl e \<Rightarrow> Inl e
                 | Inr None \<Rightarrow>
                     Inr \<lparr>assignments = [], unscheduled_tasks = map fst previous,
                          objective_value = None\<rparr>
                 | Inr (Some (result, bu, bo)) \<Rightarrow> Inr (result\<lparr>objective_value := Some bo\<rparr>))))"

section \<open>Constraint-programming scheduler (app/scheduler/cp_lns.py)\<close>

record CPLNSScheduler =
  cp_granularity_minutes :: int
  solver_time_limit_seconds :: rat
  search_workers :: "int option"
  tardiness_weight :: int
  stability_weight :: int
  start_time_weight :: int
  unscheduled_weight :: int
  cp_working_day_start_hour :: int
  cp_working_day_end_hour :: int

text \<open>
  The CP-SAT solver is a library outside the repository. What \<^verbatim>\<open>solver.Solve\<close>
  hands back is taken as an input of the model: a status and, for every task of the
  request in order, the values of the five variables the code creates for it.
\<close>

datatype cp_status = OPTIMAL | FEASIBLE | INFEASIBLE | MODEL_INVALID | UNKNOWN

record task_vars =
  v_start :: int
  v_end :: int
  v_present :: bool
  v_tardiness :: int
  v_deviation :: int

definition cp_indexer :: "CPLNSScheduler \<Rightarrow> ScheduleTask \<Rightarrow> ScheduleTask list \<Rightarrow> ScheduleMeeting list \<Rightarrow> TimeIndexer" where
  "cp_indexer cfg t ts ms =
     \<lparr>base = base_start_of (cp_granularity_minutes cfg) t ts ms,
      granularity = cp_granularity_minutes cfg\<rparr>"

definition window_slot_range_of :: "TimeIndexer \<Rightarrow> (datetime \<times> datetime) option \<Rightarrow> (int \<times> int) option" where
  "window_slot_range_of ix neighborhood =
     (case neighborhood of
        None \<Rightarrow> None
      | Some w \<Rightarrow> Some (to_slot ix (fst w), to_slot_ceiling ix (snd w)))"

definition cp_previous_start_slot ::
  "TimeIndexer \<Rightarrow> (string \<times> (datetime \<times> datetime)) list \<Rightarrow> ScheduleTask \<Rightarrow> int option" where
  "cp_previous_start_slot ix previous t =
     (case map_of previous (task_id t) of
        None \<Rightarrow> None
      | Some previous_assignment \<Rightarrow> Some (to_slot ix (fst previous_assignment)))"

definition cp_earliest_slot :: "TimeIndexer \<Rightarrow> ScheduleTask \<Rightarrow> int" where
  "cp_earliest_slot ix t = max 0 (to_slot ix (earliest_start t))"

definition cp_latest_start_slot :: "TimeIndexer \<Rightarrow> int \<Rightarrow> ScheduleTask \<Rightarrow> int" where
  "cp_latest_start_slot ix horizon_slots t =
     (let dur = duration_to_slots ix (duration_minutes t);
          latest = to_slot_ceiling ix (due t) - dur;
          latest = min latest (horizon_slots - dur)
      in max (cp_earliest_slot ix t) latest)"

text \<open>
  The constraints that the loop over the tasks posts on the variables of one task: the
  variable domains, the optional interval, and every \<^verbatim>\<open>model.Add\<close>.
\<close>

definition task_constraints ::
  "TimeIndexer \<Rightarrow> int \<Rightarrow> (string \<times> (datetime \<times> datetime)) list \<Rightarrow> (int \<times> int) option
   \<Rightarrow> ScheduleTask \<Rightarrow> task_vars \<Rightarrow> bool" where
  "task_constraints ix horizon_slots previous window_slot_range t v =
     (let dur = duration_to_slots ix (duration_minutes t);
          earliest = cp_earliest_slot ix t;
          latest = cp_latest_start_slot ix horizon_slots t;
          due_s = to_slot_ceiling ix (due t);
          previous_slot = cp_previous_start_slot ix previous t;
          previous_slot' = (case fixed_start t of
                              Some f \<Rightarrow> Some (to_slot ix f)
                            | None \<Rightarrow> previous_slot)
      in earliest \<le> v_start v \<and> v_start v \<le> latest
         \<and> earliest + dur \<le> v_end v \<and> v_end v \<le> horizon_slots
         \<and> (v_present v \<longrightarrow> v_start v + dur = v_end v)
         \<and> (v_present v \<longrightarrow> v_start v \<ge> earliest)
         \<and> (v_present v \<longrightarrow> v_end v \<le> due_s)
         \<and> (case fixed_start t of
               Some f \<Rightarrow> v_start v = to_slot ix f \<and> v_present v
             | None \<Rightarrow>
                 (case (window_slot_range, previous_slot) of
                    (Some w, Some p) \<Rightarrow>
                      (\<not> (fst w \<le> p \<and> p \<le> snd w) \<longrightarrow> v_start v = p \<and> v_present v)
                  | _ \<Rightarrow> True))
         \<and> (map_of previous (task_id t) = None \<and> fixed_start t = None \<longrightarrow> v_present v)
         \<and> 0 \<le> v_tardiness v \<and> v_tardiness v \<le> horizon_slots
         \<and> (v_present v \<longrightarrow> v_tardiness v \<ge> v_end v - due_s)
         \<and> (\<not> v_present v \<longrightarrow> v_tardiness v = 0)
         \<and> 0 \<le> v_deviation v \<and> v_deviation v \<le> horizon_slots
         \<and> (case previous_slot' of
               Some p \<Rightarrow> v_deviation v \<ge> v_start v - p \<and> v_deviation v \<ge> p - v_start v
             | None \<Rightarrow> v_deviation v = 0))"

text \<open>
  Fixed intervals, as pairs of a start slot and an end slot: one per meeting, and the
  non-working blocks of every calendar day up to the horizon.
\<close>

definition meeting_interval :: "TimeIndexer \<Rightarrow> ScheduleMeeting \<Rightarrow> int \<times> int" where
  "meeting_interval ix m =
     (let meeting_start_slot = to_slot ix (meeting_start m);
          meeting_duration_minutes =
            max 1 (ceil_div (meeting_end m - meeting_start m) MICROS_PER_MINUTE);
          meeting_duration_slots = duration_to_slots ix meeting_duration_minutes
      in (meeting_start_slot, meeting_start_slot + meeting_duration_slots))"

definition add_block_interval :: "TimeIndexer \<Rightarrow> int \<Rightarrow> datetime \<Rightarrow> datetime \<Rightarrow> (int \<times> int) list" where
  "add_block_interval ix horizon_slots start_dt end_dt =
     (let start_slot = max 0 (to_slot ix start_dt);
          end_slot = min horizon_slots (to_slot_ceiling ix end_dt)
      in if end_slot \<le> start_slot then []
         else [(start_slot, start_slot + (end_slot - start_slot))])"

definition MICROS_PER_HOUR :: int where
  "MICROS_PER_HOUR = 60 * MICROS_PER_MINUTE"

definition MICROS_PER_DAY :: int where
  "MICROS_PER_DAY = 24 * MICROS_PER_HOUR"

text \<open>
  \<^verbatim>\<open>day.replace(hour=h, minute=0, second=0, microsecond=0)\<close> on a midnight
  \<open>day\<close>: an hour outside \<open>0..23\<close> raises \<^verbatim>\<open>ValueError\<close>.
\<close>

definition replace_hour :: "datetime \<Rightarrow> int \<Rightarrow> error + datetime" where
  "replace_hour day h = (if 0 \<le> h \<and> h \<le> 23 then Inr (day + h * MICROS_PER_HOUR) else Inl ValueError)"

function day_blocks ::
  "TimeIndexer \<Rightarrow> int \<Rightarrow> int \<Rightarrow> int \<Rightarrow> datetime \<Rightarrow> datetime \<Rightarrow> error + (int \<times> int) list" where
  "day_blocks ix horizon_slots working_start_hour working_end_hour horizon_end_dt current_day =
     (if current_day < horizon_end_dt
      then (case replace_hour current_day working_start_hour of
              Inl e \<Rightarrow> Inl e
            | Inr work_start_dt \<Rightarrow>
           (case replace_hour current_day working_end_hour of
              Inl e \<Rightarrow> Inl e
            | Inr work_end_dt \<Rightarrow>
           (let next_day_dt = current_day + MICROS_PER_DAY
            in (case day_blocks ix horizon_slots working_start_hour working_end_hour
                       horizon_end_dt next_day_dt of
                  Inl e \<Rightarrow> Inl e
                | Inr rest \<Rightarrow>
                    Inr (add_block_interval ix horizon_slots current_day work_start_dt
                         @ add_block_interval ix horizon_slots work_end_dt next_day_dt
                         @ rest)))))
      else Inr [])"
  by pat_completeness auto
termination
  by (relation "measure (\<lambda>(ix, h, ws, we, horizon_end_dt, current_day).
        nat (horizon_end_dt - current_day))")
     (auto simp: MICROS_PER_DAY_def MICROS_PER_HOUR_def MICROS_PER_MINUTE_def)

declare day_blocks.simps [simp del]

definition working_blocks :: "CPLNSScheduler \<Rightarrow> TimeIndexer \<Rightarrow> int \<Rightarrow> error + (int \<times> int) list" where
  "working_blocks cfg ix horizon_slots =
     (if cp_working_day_start_hour cfg > 0 \<or> cp_working_day_end_hour cfg < 24
      then (let horizon_end_dt = to_datetime ix horizon_slots;
                current_day = base ix - base ix mod MICROS_PER_DAY
            in day_blocks ix horizon_slots (cp_working_day_start_hour cfg)
                 (cp_working_day_end_hour cfg) horizon_end_dt current_day)
      else Inr [])"

text \<open>
  \<^verbatim>\<open>AddNoOverlap\<close>: any two intervals of the list that are both present do not
  share a slot. An interval is a start, an end and its presence.
\<close>

definition disjoint_intervals :: "int \<times> int \<times> bool \<Rightarrow> int \<times> int \<times> bool \<Rightarrow> bool" where
  "disjoint_intervals x y =
     (case x of (s1, e1, p1) \<Rightarrow> case y of (s2, e2, p2) \<Rightarrow>
        \<not> p1 \<or> \<not> p2 \<or> e1 \<le> s2 \<or> e2 \<le> s1)"

definition model_intervals ::
  "TimeIndexer \<Rightarrow> ScheduleMeeting list \<Rightarrow> (int \<times> int) list \<Rightarrow> task_vars list \<Rightarrow> (int \<times> int \<times> bool) list" where
  "model_intervals ix ms blocks sol =
     map (\<lambda>v. (v_start v, v_end v, v_present v)) sol
     @ map (\<lambda>m. (fst (meeting_interval ix m), snd (meeting_interval ix m), True)) ms
     @ map (\<lambda>b. (fst b, snd b, True)) blocks"

definition cp_model_holds ::
  "TimeIndexer \<Rightarrow> int \<Rightarrow> ScheduleRequest \<Rightarrow> (int \<times> int) list \<Rightarrow> task_vars list \<Rightarrow> bool" where
  "cp_model_holds ix horizon_slots request blocks sol =
     (let previous = (case previous_assignments request of None \<Rightarrow> [] | Some p \<Rightarrow> p);
          window_slot_range = window_slot_range_of ix (neighborhood_window request)
      in length sol = length (tasks request)
         \<and> list_all2 (task_constraints ix horizon_slots previous window_slot_range) (tasks request) sol
         \<and> sorted_wrt disjoint_intervals (model_intervals ix (meetings request) blocks sol))"

text \<open>
  The dictionaries \<^verbatim>\<open>start_vars\<close>, \<^verbatim>\<open>end_vars\<close>,
  \<^verbatim>\<open>present_vars\<close>, \<^verbatim>\<open>lateness_vars\<close> and
  \<^verbatim>\<open>deviation_vars\<close> are keyed by task id: the last task of an id owns the entry.
\<close>

definition vars_of :: "ScheduleTask list \<Rightarrow> task_vars list \<Rightarrow> string \<Rightarrow> task_vars option" where
  "vars_of ts sol tid = map_of (rev (zip (map task_id ts) sol)) tid"

fun decode ::
  "TimeIndexer \<Rightarrow> (string \<Rightarrow> task_vars option) \<Rightarrow> ScheduleTask list
   \<Rightarrow> error + (AssignedTask list \<times> string list)" where
  "decode ix vars [] = Inr ([], [])"
| "decode ix vars (t # ts) =
     (case vars (task_id t) of
        None \<Rightarrow> Inl KeyError
      | Some v \<Rightarrow>
          (case decode ix vars ts of
             Inl e \<Rightarrow> Inl e
           | Inr (assigned, unscheduled) \<Rightarrow>
               if \<not> v_present v then Inr (assigned, task_id t # unscheduled)
               else Inr (\<lparr>a_task_id = task_id t,
                          a_start = to_datetime ix (v_start v),
                          a_end = to_datetime ix (v_end v),
                          deviation_minutes = v_deviation v * granularity ix,
                          tardiness_minutes = v_tardiness v * granularity ix\<rparr> # assigned,
                         unscheduled)))"

text \<open>The objective that the model minimises, read at the returned values.\<close>

definition cp_objective :: "CPLNSScheduler \<Rightarrow> ScheduleTask list \<Rightarrow> (string \<Rightarrow> task_vars option) \<Rightarrow> int" where
  "cp_objective cfg ts vars =
     sum_list (map (\<lambda>t. case vars (task_id t) of
                          None \<Rightarrow> 0
                        | Some v \<Rightarrow>
                            unscheduled_weight cfg * (1 - (if v_present v then 1 else 0))
                            + tardiness_weight cfg * priority t * v_tardiness v
                            + stability_weight cfg * v_deviation v
                            + start_time_weight cfg * priority t * v_start v) ts)"

definition cp_schedule ::
  "CPLNSScheduler \<Rightarrow> ScheduleRequest \<Rightarrow> cp_status \<times> task_vars list \<Rightarrow> error + ScheduleResult" where
  "cp_schedule cfg request outcome =
     (case tasks request of
        [] \<Rightarrow> Inr \<lparr>assignments = [], unscheduled_tasks = [], objective_value = Some 0\<rparr>
      | t # ts \<Rightarrow>
          if cp_granularity_minutes cfg = 0 then Inl ZeroDivisionError
          else
            (let ms = meetings request;
                 ix = cp_indexer cfg t ts ms;
                 horizon_slots = horizon_slots_of ix t ts ms
             in (case working_blocks cfg ix horizon_slots of
                   Inl e \<Rightarrow> Inl e
                 | Inr blocks \<Rightarrow>
                     (case outcome of (status, sol) \<Rightarrow>
                        if status \<noteq> OPTIMAL \<and> status \<noteq> FEASIBLE
                        then Inr \<lparr>assignments = [], unscheduled_tasks = map task_id (t # ts),
                                  objective_value = None\<rparr>
                        else (case decode ix (vars_of (t # ts) sol) (t # ts) of
                                Inl e \<Rightarrow> Inl e
                              | Inr (assigned, unscheduled) \<Rightarrow>
                                  Inr \<lparr>assignments = sort_key a_start assigned,
                                       unscheduled_tasks = unscheduled,
                                       objective_value =
                                         (if status = OPTIMAL
                                          then Some (cp_objective cfg (t # ts) (vars_of (t # ts) sol))
                                          else None)\<rparr>)))))"

text \<open>
  What the solver guarantees: with status \<^verbatim>\<open>OPTIMAL\<close> or
  \<^verbatim>\<open>FEASIBLE\<close> the returned values satisfy every constraint of the model that
  \<^verbatim>\<open>schedule\<close> built for the request.
\<close>

definition solver_sound :: "CPLNSScheduler \<Rightarrow> ScheduleRequest \<Rightarrow> cp_status \<times> task_vars list \<Rightarrow> bool" where
  "solver_sound cfg request outcome =
     (case tasks request of
        [] \<Rightarrow> True
      | t # ts \<Rightarrow>
          (let ms = meetings request;
               ix = cp_indexer cfg t ts ms;
               horizon_slots = horizon_slots_of ix t ts ms
           in (case working_blocks cfg ix horizon_slots of
                 Inl e \<Rightarrow> True
               | Inr blocks \<Rightarrow>
                   (fst outcome = OPTIMAL \<or> fst outcome = FEASIBLE)
                   \<longrightarrow> cp_model_holds ix horizon_slots request blocks (snd outcome))))"

text \<open>
  A start slot fits a segment on an occupancy list: the segment ends by its due slot and
  all its slots are free.
\<close>

definition fits :: "SegmentInfo \<Rightarrow> bool list \<Rightarrow> int \<Rightarrow> bool" where
  "fits info occ s =
     (s + duration_slots info \<le> due_slot info
      \<and> (\<forall>k. s \<le> k \<and> k < s + duration_slots info \<longrightarrow> \<not> occ ! nat k))"

text \<open>The schedulers with the default arguments of their constructors.\<close>

definition default_swo :: SWOScheduler where
  "default_swo =
     \<lparr>swo_granularity_minutes = 15, max_iterations = 6, unscheduled_penalty = 10000,
      deviation_weight = 50, slack_weight = 5,
      swo_working_day_start_hour = 9, swo_working_day_end_hour = 17\<rparr>"

definition default_cp :: CPLNSScheduler where
  "default_cp =
     \<lparr>cp_granularity_minutes = 5, solver_time_limit_seconds = 15, search_workers = None,
      tardiness_weight = 200, stability_weight = 30, start_time_weight = 1,
      unscheduled_weight = 10000,
      cp_working_day_start_hour = 9, cp_working_day_end_hour = 17\<rparr>"

text \<open>An instant given as minutes after the epoch midnight, and a task without options.\<close>

definition at_minute :: "int \<Rightarrow> datetime" where
  "at_minute m = m * MICROS_PER_MINUTE"

definition plain_task :: "string \<Rightarrow> int \<Rightarrow> datetime \<Rightarrow> datetime \<Rightarrow> int \<Rightarrow> ScheduleTask" where
  "plain_task tid minutes es d p =
     \<lparr>task_id = tid, duration_minutes = minutes, earliest_start = es, due = d, priority = p,
      preferred_windows = None, fixed_start = None\<rparr>"

text \<open>
  Predicates for the invariants of a construction pass: the slots of a segment, a segment
  placed on the occupancy list, and a consistent state of the pass.
\<close>

definition seg_slots :: "int \<Rightarrow> int \<Rightarrow> int set" where
  "seg_slots s d = {k. s \<le> k \<and> k < s + d}"

definition placed :: "SegmentInfo \<Rightarrow> bool list \<Rightarrow> bool list \<Rightarrow> int \<Rightarrow> bool" where
  "placed info base_occ occ s =
     (0 \<le> s \<and> earliest_slot info \<le> s
      \<and> s + duration_slots info \<le> due_slot info
      \<and> s + duration_slots info \<le> int (length occ)
      \<and> (\<forall>k \<in> seg_slots s (duration_slots info). occ ! nat k \<and> \<not> base_occ ! nat k))"

definition placed_ok ::
  "(string \<Rightarrow> SegmentInfo option) \<Rightarrow> bool list \<Rightarrow> bool list \<Rightarrow> (string \<times> int) list \<Rightarrow> bool" where
  "placed_ok infos base_occ occ assigned =
     (length occ = length base_occ
      \<and> (\<forall>k < length occ. base_occ ! k \<longrightarrow> occ ! k)
      \<and> distinct (map fst assigned)
      \<and> (\<forall>tid s. map_of assigned tid = Some s \<longrightarrow>
            (\<exists>info. infos tid = Some info \<and> placed info base_occ occ s))
      \<and> (\<forall>t1 s1 t2 s2 i1 i2. map_of assigned t1 = Some s1 \<and> map_of assigned t2 = Some s2
            \<and> t1 \<noteq> t2 \<and> infos t1 = Some i1 \<and> infos t2 = Some i2 \<longrightarrow>
            seg_slots s1 (duration_slots i1) \<inter> seg_slots s2 (duration_slots i2) = {}))"

definition non_overlapping :: "AssignedTask \<Rightarrow> AssignedTask \<Rightarrow> bool" where
  "non_overlapping a b = (a_end a \<le> a_start b \<or> a_end b \<le> a_start a)"

definition slot_admissible :: "SegmentInfo \<Rightarrow> bool list \<Rightarrow> int \<Rightarrow> bool" where
  "slot_admissible info base_occ s =
     (0 \<le> s \<and> earliest_slot info \<le> s
      \<and> s + duration_slots info \<le> due_slot info
      \<and> s + duration_slots info \<le> int (length base_occ)
      \<and> (\<forall>k \<in> seg_slots s (duration_slots info). \<not> base_occ ! nat k))"

definition swo_assignments_ok ::
  "(string \<Rightarrow> SegmentInfo option) \<Rightarrow> TimeIndexer \<Rightarrow> bool list \<Rightarrow> AssignedTask list \<Rightarrow> bool" where
  "swo_assignments_ok infos ix base_occ assigned =
     (sorted_wrt non_overlapping assigned
      \<and> (\<forall>a \<in> set assigned. \<exists>info s. infos (a_task_id a) = Some info
            \<and> a = build_assigned ix info (a_task_id a) s
            \<and> slot_admissible info base_occ s))"

text \<open>
  A request whose only task is due at 09:50 and needs an hour from 09:00: on the 15-minute
  grid its due slot is the one ending at 10:00.
\<close>

definition late_request :: ScheduleRequest where
  "late_request =
     \<lparr>tasks = [plain_task ''a'' 60 (at_minute 540) (at_minute 590) 5], meetings = [],
      previous_assignments = None, neighborhood_window = None\<rparr>"

text \<open>
  The request of the test \<^verbatim>\<open>test_scheduler_respects_meetings_and_deadlines\<close>: two tasks
  from 09:00 and a meeting from 10:00 to 11:00, with the values the squeaky-wheel scheduler
  derives from it.
\<close>

definition task_a :: ScheduleTask where
  "task_a = plain_task ''a'' 90 (at_minute 540) (at_minute 1020) 5"

definition task_b :: ScheduleTask where
  "task_b = plain_task ''b'' 60 (at_minute 540) (at_minute 720) 10"

definition meeting_request :: ScheduleRequest where
  "meeting_request =
     \<lparr>tasks = [task_a, task_b],
      meetings = [\<lparr>meeting_id = ''m'', meeting_start = at_minute 600, meeting_end = at_minute 660\<rparr>],
      previous_assignments = None, neighborhood_window = None\<rparr>"

definition meeting_ix :: TimeIndexer where
  "meeting_ix = swo_indexer default_swo task_a [task_b] (meetings meeting_request)"

definition meeting_h :: int where
  "meeting_h = horizon_slots_of meeting_ix task_a [task_b] (meetings meeting_request)"

definition meeting_infos :: "string \<Rightarrow> SegmentInfo option" where
  "meeting_infos = map_of (segment_info_items meeting_ix meeting_h
     (case previous_assignments meeting_request of None \<Rightarrow> [] | Some p \<Rightarrow> p) [task_a, task_b])"

definition meeting_base_occ :: "bool list" where
  "meeting_base_occ = base_occupancy_of default_swo meeting_ix meeting_h (meetings meeting_request)"

text \<open>
  Working hours that \<^verbatim>\<open>datetime.replace\<close> accepts: the constructor admits an end
  hour of 24, which only the branch without blocks (start hour 0) can handle.
\<close>

definition cp_hours_ok :: "CPLNSScheduler \<Rightarrow> bool" where
  "cp_hours_ok cfg =
     (0 \<le> cp_working_day_start_hour cfg
      \<and> cp_working_day_start_hour cfg < cp_working_day_end_hour cfg
      \<and> (cp_working_day_end_hour cfg \<le> 23
          \<or> (cp_working_day_end_hour cfg = 24 \<and> cp_working_day_start_hour cfg = 0)))"

text \<open>
  The result of the decoding loop when every task owns its dictionary entries: the
  assignment of one task, the assignments of the present tasks and the ids of the others.
\<close>

definition decoded_task :: "TimeIndexer \<Rightarrow> ScheduleTask \<Rightarrow> task_vars \<Rightarrow> AssignedTask" where
  "decoded_task ix t v =
     \<lparr>a_task_id = task_id t,
      a_start = to_datetime ix (v_start v),
      a_end = to_datetime ix (v_end v),
      deviation_minutes = v_deviation v * granularity ix,
      tardiness_minutes = v_tardiness v * granularity ix\<rparr>"

definition decoded_assigned :: "TimeIndexer \<Rightarrow> (ScheduleTask \<times> task_vars) list \<Rightarrow> AssignedTask list" where
  "decoded_assigned ix pairs =
     map (\<lambda>p. decoded_task ix (fst p) (snd p)) (filter (\<lambda>p. v_present (snd p)) pairs)"

definition decoded_unscheduled :: "(ScheduleTask \<times> task_vars) list \<Rightarrow> string list" where
  "decoded_unscheduled pairs = map (\<lambda>p. task_id (fst p)) (filter (\<lambda>p. \<not> v_present (snd p)) pairs)"

text \<open>The half-open intervals of a list of assignments are pairwise disjoint.\<close>

definition pairwise_disjoint :: "AssignedTask list \<Rightarrow> bool" where
  "pairwise_disjoint xs =
     (\<forall>i j. i < j \<and> j < length xs \<longrightarrow>
        {a_start (xs ! i) ..< a_end (xs ! i)} \<inter> {a_start (xs ! j) ..< a_end (xs ! j)} = {})"

text \<open>
  The optimal values for \<open>meeting_request\<close> on the 5-minute grid: task \<open>b\<close> in slots
  0 to 12, the meeting in slots 12 to 24, task \<open>a\<close> in slots 24 to 42.
\<close>

definition meeting_outcome :: "cp_status \<times> task_vars list" where
  "meeting_outcome =
     (OPTIMAL,
      [\<lparr>v_start = 24, v_end = 42, v_present = True, v_tardiness = 0, v_deviation = 0\<rparr>,
       \<lparr>v_start = 0, v_end = 12, v_present = True, v_tardiness = 0, v_deviation = 0\<rparr>])"

text \<open>
  A task of an hour from 09:00 with a fixed start at 10:00, alone in a request, the values
  that pin it on the 5-minute grid, and the same task with a meeting from 10:00 to 11:00.
\<close>

definition fixed_task :: ScheduleTask where
  "fixed_task = (plain_task ''a'' 60 (at_minute 540) (at_minute 1020) 5)
                  \<lparr>fixed_start := Some (at_minute 600)\<rparr>"

definition fixed_request :: ScheduleRequest where
  "fixed_request =
     \<lparr>tasks = [fixed_task], meetings = [], previous_assignments = None,
      neighborhood_window = None\<rparr>"

definition fixed_outcome :: "cp_status \<times> task_vars list" where
  "fixed_outcome =
     (OPTIMAL, [\<lparr>v_start = 12, v_end = 24, v_present = True, v_tardiness = 0, v_deviation = 0\<rparr>])"

definition fixed_clash_request :: ScheduleRequest where
  "fixed_clash_request =
     \<lparr>tasks = [fixed_task],
      meetings = [\<lparr>meeting_id = ''m'', meeting_start = at_minute 600, meeting_end = at_minute 660\<rparr>],
      previous_assignments = None, neighborhood_window = None\<rparr>"

text \<open>
  A task of an hour that the previous plan had from 11:00 to 12:00, with the neighbourhood
  09:00 to 10:00; the same with the previous start at 11:02; and the same with a meeting
  from 11:00 to 12:00.
\<close>

definition pinned_task :: ScheduleTask where
  "pinned_task = plain_task ''a'' 60 (at_minute 540) (at_minute 1020) 5"

definition pin_request :: ScheduleRequest where
  "pin_request =
     \<lparr>tasks = [pinned_task], meetings = [],
      previous_assignments = Some [(''a'', (at_minute 660, at_minute 720))],
      neighborhood_window = Some (at_minute 540, at_minute 600)\<rparr>"

definition pin_outcome :: "cp_status \<times> task_vars list" where
  "pin_outcome =
     (OPTIMAL, [\<lparr>v_start = 24, v_end = 36, v_present = True, v_tardiness = 0, v_deviation = 0\<rparr>])"

definition pin_off_grid_request :: ScheduleRequest where
  "pin_off_grid_request =
     pin_request \<lparr>previous_assignments := Some [(''a'', (at_minute 662, at_minute 722))]\<rparr>"

definition pin_clash_request :: ScheduleRequest where
  "pin_clash_request =
     pin_request \<lparr>meetings :=
       [\<lparr>meeting_id = ''m'', meeting_start = at_minute 660, meeting_end = at_minute 720\<rparr>]\<rparr>"

text \<open>
  A task of an hour from 09:00 that is due at 09:59:30; a task of half an hour that may
  start at 09:02, with the values that minimise the objective on the 5-minute grid; and a
  task of half an hour due at 09:58 behind a meeting from 09:00 to 09:30, with the only
  values that satisfy the constraints.
\<close>

definition half_minute_request :: ScheduleRequest where
  "half_minute_request =
     \<lparr>tasks = [plain_task ''a'' 60 (at_minute 540) (at_minute 599 + 30000000) 5], meetings = [],
      previous_assignments = None, neighborhood_window = None\<rparr>"

definition early_task :: ScheduleTask where
  "early_task = plain_task ''a'' 30 (at_minute 542) (at_minute 1020) 5"

definition early_request :: ScheduleRequest where
  "early_request =
     \<lparr>tasks = [early_task], meetings = [], previous_assignments = None,
      neighborhood_window = None\<rparr>"

definition early_outcome :: "cp_status \<times> task_vars list" where
  "early_outcome =
     (OPTIMAL, [\<lparr>v_start = 0, v_end = 6, v_present = True, v_tardiness = 0, v_deviation = 0\<rparr>])"

definition overdue_task :: ScheduleTask where
  "overdue_task = plain_task ''a'' 30 (at_minute 540) (at_minute 598) 5"

definition overdue_request :: ScheduleRequest where
  "overdue_request =
     \<lparr>tasks = [overdue_task],
      meetings = [\<lparr>meeting_id = ''m'', meeting_start = at_minute 540, meeting_end = at_minute 570\<rparr>],
      previous_assignments = None, neighborhood_window = None\<rparr>"

definition overdue_outcome :: "cp_status \<times> task_vars list" where
  "overdue_outcome =
     (OPTIMAL, [\<lparr>v_start = 6, v_end = 12, v_present = True, v_tardiness = 0, v_deviation = 0\<rparr>])"





definition squeezed_task :: ScheduleTask where
  "squeezed_task = plain_task ''a'' 30 (at_minute 630) (at_minute 660) 5"

definition squeezed_request :: ScheduleRequest where
  "squeezed_request =
     \<lparr>tasks = [squeezed_task],
      meetings = [\<lparr>meeting_id = ''m'', meeting_start = at_minute 602, meeting_end = at_minute 632\<rparr>],
      previous_assignments = None, neighborhood_window = None\<rparr>"

definition squeezed_outcome :: "cp_status \<times> task_vars list" where
  "squeezed_outcome =
     (OPTIMAL, [\<lparr>v_start = 6, v_end = 12, v_present = True, v_tardiness = 0, v_deviation = 0\<rparr>])"

text \<open>
  The service layer (app/services/scheduling.py). Of a task row only the columns that the
  schedule mapping reads are kept: \<open>id_str\<close> is \<^verbatim>\<open>str(task.id)\<close> and
  \<open>row_duration_minutes\<close> is \<^verbatim>\<open>task.duration_minutes\<close>. The column \<^verbatim>\<open>id\<close> is a
  \<^verbatim>\<open>uuid.UUID\<close>, whose string has 36 characters: lower-case hexadecimal digits, and
  hyphens at the positions 8, 13, 18 and 23.
\<close>

record Task =
  id_str :: string
  row_duration_minutes :: int

definition uuid_string :: "string \<Rightarrow> bool" where
  "uuid_string s =
     (length s = 36
      \<and> list_all (\<lambda>i. if i \<in> {8, 13, 18, 23} then s ! i = CHR ''-''
                       else s ! i \<in> set ''0123456789abcdef'') [0 ..< 36])"

text \<open>The decimal digits of a number, as \<^verbatim>\<open>f"{index+1}"\<close> writes them.\<close>

function str_nat :: "nat \<Rightarrow> string" where
  "str_nat n = (if n < 10 then [char_of (48 + n)]
                else str_nat (n div 10) @ [char_of (48 + n mod 10)])"
  by pat_completeness auto

termination
  by (relation "measure id") auto

declare str_nat.simps [simp del]

text \<open>
  \<^verbatim>\<open>schedule_id = str(task.id) if index == 0 else f"{task.id}::seg{index+1}"\<close>, and the
  entries that the loop over the segments of one task stores in \<^verbatim>\<open>schedule_mapping\<close>,
  in the order of the loop. A later entry for a key replaces an earlier one.
\<close>

definition schedule_id :: "string \<Rightarrow> nat \<Rightarrow> string" where
  "schedule_id root_id index =
     (if index = 0 then root_id else root_id @ ''::seg'' @ str_nat (index + 1))"

definition mapping_entries :: "Task \<Rightarrow> (string \<times> string) list" where
  "mapping_entries row =
     map (\<lambda>index. (schedule_id (id_str row) index, id_str row))
       [0 ..< length (segment_duration (row_duration_minutes row))]"

definition schedule_mapping :: "Task list \<Rightarrow> (string \<times> string) list" where
  "schedule_mapping rows =
     fold (\<lambda>entry mapping. AList.update (fst entry) (snd entry) mapping)
       (concat (map mapping_entries rows)) []"

text \<open>\<^verbatim>\<open>mapping.get(key, default)\<close>\<close>

definition dict_get :: "('k \<rightharpoonup> 'v) \<Rightarrow> 'k \<Rightarrow> 'v \<Rightarrow> 'v" where
  "dict_get mapping key fallback = (case mapping key of None \<Rightarrow> fallback | Some v \<Rightarrow> v)"

text \<open>
  \<^verbatim>\<open>_remap_schedule_result\<close>. \<^verbatim>\<open>sorted\<close> of the set of the remapped ids is the sorted
  list of the ids without duplicates; strings are compared character by character.
\<close>

definition remap_schedule_result :: "ScheduleResult \<Rightarrow> (string \<rightharpoonup> string) \<Rightarrow> ScheduleResult" where
  "remap_schedule_result result mapping =
     (let remapped_assignments =
            map (\<lambda>assignment.
                   (let root_id = dict_get mapping (a_task_id assignment) (a_task_id assignment)
                    in \<lparr>a_task_id = root_id,
                        a_start = a_start assignment,
                        a_end = a_end assignment,
                        deviation_minutes = deviation_minutes assignment,
                        tardiness_minutes = tardiness_minutes assignment\<rparr>))
              (assignments result);
          remapped_unscheduled =
            sort (remdups (map (\<lambda>task_id. dict_get mapping task_id task_id)
                             (unscheduled_tasks result)))
      in \<lparr>assignments = remapped_assignments,
          unscheduled_tasks = remapped_unscheduled,
          objective_value = objective_value result\<rparr>)"

text \<open>
  Two task rows, of 130 and of 60 minutes, and a result that assigns both segments of the
  first and leaves the second unscheduled, twice.
\<close>

definition row_one :: Task where
  "row_one = \<lparr>id_str = ''7c9e6679-7425-40de-944b-e07fc1f90ae7'', row_duration_minutes = 130\<rparr>"

definition row_two :: Task where
  "row_two = \<lparr>id_str = ''16fd2706-8baf-433b-82eb-8c7fada847da'', row_duration_minutes = 60\<rparr>"

definition segment_result :: ScheduleResult where
  "segment_result =
     \<lparr>assignments =
        [\<lparr>a_task_id = ''7c9e6679-7425-40de-944b-e07fc1f90ae7'', a_start = at_minute 540,
          a_end = at_minute 655, deviation_minutes = 0, tardiness_minutes = 0\<rparr>,
         \<lparr>a_task_id = ''7c9e6679-7425-40de-944b-e07fc1f90ae7::seg2'', a_start = at_minute 655,
          a_end = at_minute 670, deviation_minutes = 0, tardiness_minutes = 0\<rparr>],
      unscheduled_tasks = [''x'', ''16fd2706-8baf-433b-82eb-8c7fada847da'', ''x''],
      objective_value = Some 10000\<rparr>"

section \<open>Properties of the segmentation\<close>

lemma segment_chunk_small:
  "15 \<le> r \<Longrightarrow> r \<le> 120 \<Longrightarrow> segment_chunk r = r"
  by (simp add: segment_chunk_def Let_def MAX_BLOCK_MINUTES_def MIN_BLOCK_MINUTES_def)

lemma segment_chunk_large:
  "120 < r \<Longrightarrow> 15 \<le> segment_chunk r \<and> segment_chunk r \<le> 120 \<and> 15 \<le> r - segment_chunk r"
  by (simp add: segment_chunk_def Let_def MAX_BLOCK_MINUTES_def MIN_BLOCK_MINUTES_def)

lemma segment_chunk_bounds:
  assumes "15 \<le> r"
  shows "15 \<le> segment_chunk r \<and> segment_chunk r \<le> 120
         \<and> (r - segment_chunk r = 0 \<or> 15 \<le> r - segment_chunk r)"
proof (cases "r \<le> 120")
  case True
  with assms show ?thesis by (simp add: segment_chunk_small)
next
  case False
  then show ?thesis using segment_chunk_large [of r] by simp
qed

lemma segment_loop_inv:
  "r = 0 \<or> 15 \<le> r \<Longrightarrow>
   (\<forall>c \<in> set (segment_loop r chunks). c \<in> set chunks \<or> (15 \<le> c \<and> c \<le> 120))
   \<and> sum_list (segment_loop r chunks) = sum_list chunks + r"
proof (induction r chunks rule: segment_loop.induct)
  case (1 remaining chunks)
  show ?case
  proof (cases "remaining > 0")
    case False
    have stop: "segment_loop remaining chunks = chunks"
      using False by (subst segment_loop.simps) simp
    from False "1.prems" have "remaining = 0" by simp
    then show ?thesis unfolding stop by simp
  next
    case True
    with "1.prems" have ge: "15 \<le> remaining" by simp
    note b = segment_chunk_bounds [OF ge]
    have next_ok: "remaining - segment_chunk remaining = 0
                   \<or> 15 \<le> remaining - segment_chunk remaining"
      using b by simp
    note ih = "1.IH" [OF True next_ok]
    have unf: "segment_loop remaining chunks =
               segment_loop (remaining - segment_chunk remaining) (chunks @ [segment_chunk remaining])"
      using True by (subst segment_loop.simps) simp
    show ?thesis
      unfolding unf using ih b by auto
  qed
qed

text \<open>
  Claim C2. For every positive \<open>total_minutes\<close>, every chunk returned by
  \<^verbatim>\<open>_segment_duration\<close> lies in \<open>[15, 120]\<close>, the chunks sum to
  \<open>max total_minutes 15\<close>, and for \<open>total_minutes \<ge> 15\<close> they sum to exactly
  \<open>total_minutes\<close>.
\<close>

theorem segment_duration_chunks:
  assumes "0 < total_minutes"
  shows "(\<forall>c \<in> set (segment_duration total_minutes). 15 \<le> c \<and> c \<le> 120)
         \<and> sum_list (segment_duration total_minutes) = max total_minutes 15
         \<and> (15 \<le> total_minutes \<longrightarrow> sum_list (segment_duration total_minutes) = total_minutes)"
proof -
  have "max total_minutes 15 = 0 \<or> 15 \<le> max total_minutes 15" by simp
  from segment_loop_inv [OF this, of "[]"] show ?thesis
    by (auto simp: segment_duration_def MIN_BLOCK_MINUTES_def)
qed

theorem segment_duration_chunks_witness:
  "(0::int) < 130
   \<and> segment_duration 130 = [115, 15]
   \<and> sum_list (segment_duration 130) = max 130 15"
proof -
  have h: "(0::int) < 130" by simp
  have e: "segment_duration 130 = [115, 15]"
    by (simp add: segment_duration_def segment_loop.simps segment_chunk_def Let_def
        MAX_BLOCK_MINUTES_def MIN_BLOCK_MINUTES_def)
  show ?thesis using segment_duration_chunks [OF h] e by simp
qed

section \<open>Properties of the slot search\<close>

lemma py_get_in_range:
  "0 \<le> i \<Longrightarrow> i < int (length xs) \<Longrightarrow> py_get xs i = Inr (xs ! nat i)"
  by (simp add: py_get_def py_index_def)

lemma py_set_in_range:
  "0 \<le> i \<Longrightarrow> i < int (length xs) \<Longrightarrow> py_set xs i v = Inr (xs[nat i := v])"
  by (simp add: py_set_def py_index_def)

lemma all_free_eq:
  "0 \<le> idx \<Longrightarrow> end_slot \<le> int (length occ) \<Longrightarrow>
   all_free occ idx end_slot = Inr (\<forall>k. idx \<le> k \<and> k < end_slot \<longrightarrow> \<not> occ ! nat k)"
proof (induction occ idx end_slot rule: all_free.induct)
  case (1 occupancy idx end_slot)
  show ?case
  proof (cases "idx < end_slot")
    case False
    then show ?thesis by (subst all_free.simps) auto
  next
    case True
    with "1.prems" have g: "py_get occupancy idx = Inr (occupancy ! nat idx)"
      by (simp add: py_get_in_range)
    show ?thesis
    proof (cases "occupancy ! nat idx")
      case occ: True
      have "all_free occupancy idx end_slot = Inr False"
        using True g occ by (subst all_free.simps) simp
      moreover have "\<not> (\<forall>k. idx \<le> k \<and> k < end_slot \<longrightarrow> \<not> occupancy ! nat k)"
        using True occ by auto
      ultimately show ?thesis by simp
    next
      case free: False
      have step: "all_free occupancy idx end_slot = all_free occupancy (idx + 1) end_slot"
        using True g free by (subst all_free.simps) simp
      have ih: "all_free occupancy (idx + 1) end_slot =
                Inr (\<forall>k. idx + 1 \<le> k \<and> k < end_slot \<longrightarrow> \<not> occupancy ! nat k)"
        using "1.IH" [OF True g free] "1.prems" by simp
      have "(\<forall>k. idx + 1 \<le> k \<and> k < end_slot \<longrightarrow> \<not> occupancy ! nat k)
            = (\<forall>k. idx \<le> k \<and> k < end_slot \<longrightarrow> \<not> occupancy ! nat k)"
      proof
        assume a: "\<forall>k. idx + 1 \<le> k \<and> k < end_slot \<longrightarrow> \<not> occupancy ! nat k"
        show "\<forall>k. idx \<le> k \<and> k < end_slot \<longrightarrow> \<not> occupancy ! nat k"
        proof (intro allI impI)
          fix k assume k: "idx \<le> k \<and> k < end_slot"
          show "\<not> occupancy ! nat k"
          proof (cases "k = idx")
            case True then show ?thesis using free by simp
          next
            case False then show ?thesis using a k by simp
          qed
        qed
      next
        assume "\<forall>k. idx \<le> k \<and> k < end_slot \<longrightarrow> \<not> occupancy ! nat k"
        then show "\<forall>k. idx + 1 \<le> k \<and> k < end_slot \<longrightarrow> \<not> occupancy ! nat k" by simp
      qed
      with step ih show ?thesis by simp
    qed
  qed
qed

lemma find_slot_loop_spec:
  "0 \<le> slot \<Longrightarrow> latest_start + duration_slots info \<le> int (length occ) \<Longrightarrow>
   (\<exists>s. find_slot_loop info occ latest_start slot = Inr (Some s)
        \<and> slot \<le> s \<and> s \<le> latest_start \<and> fits info occ s
        \<and> (\<forall>s'. slot \<le> s' \<and> s' < s \<longrightarrow> \<not> fits info occ s'))
   \<or> (find_slot_loop info occ latest_start slot = Inr None
        \<and> (\<forall>s'. slot \<le> s' \<and> s' \<le> latest_start \<longrightarrow> \<not> fits info occ s'))"
proof (induction info occ latest_start slot rule: find_slot_loop.induct)
  case (1 info occupancy latest_start slot)
  show ?case
  proof (cases "slot \<le> latest_start")
    case False
    then have "find_slot_loop info occupancy latest_start slot = Inr None"
      by (subst find_slot_loop.simps) simp
    with False show ?thesis by auto
  next
    case True
    define end_slot where "end_slot = slot + duration_slots info"
    show ?thesis
    proof (cases "end_slot > due_slot info")
      case late: True
      have step: "find_slot_loop info occupancy latest_start slot
                  = find_slot_loop info occupancy latest_start (slot + 1)"
        using True late by (subst find_slot_loop.simps) (simp add: end_slot_def Let_def)
      have nf: "\<not> fits info occupancy slot" using late by (simp add: fits_def end_slot_def)
      have ih: "(\<exists>s. find_slot_loop info occupancy latest_start (slot + 1) = Inr (Some s)
                    \<and> slot + 1 \<le> s \<and> s \<le> latest_start \<and> fits info occupancy s
                    \<and> (\<forall>s'. slot + 1 \<le> s' \<and> s' < s \<longrightarrow> \<not> fits info occupancy s'))
               \<or> (find_slot_loop info occupancy latest_start (slot + 1) = Inr None
                    \<and> (\<forall>s'. slot + 1 \<le> s' \<and> s' \<le> latest_start \<longrightarrow> \<not> fits info occupancy s'))"
        using "1.IH"(1) [OF True end_slot_def late] "1.prems" by simp
      have ext: "\<And>s' u. (\<forall>s'. slot + 1 \<le> s' \<and> s' < u \<longrightarrow> \<not> fits info occupancy s')
                 \<Longrightarrow> slot \<le> s' \<Longrightarrow> s' < u \<Longrightarrow> \<not> fits info occupancy s'"
        using nf by (metis add.commute add1_zle_eq order_le_less)
      from ih show ?thesis
      proof
        assume "\<exists>s. find_slot_loop info occupancy latest_start (slot + 1) = Inr (Some s)
                    \<and> slot + 1 \<le> s \<and> s \<le> latest_start \<and> fits info occupancy s
                    \<and> (\<forall>s'. slot + 1 \<le> s' \<and> s' < s \<longrightarrow> \<not> fits info occupancy s')"
        then obtain s where s: "find_slot_loop info occupancy latest_start (slot + 1) = Inr (Some s)"
          "slot + 1 \<le> s" "s \<le> latest_start" "fits info occupancy s"
          "\<forall>s'. slot + 1 \<le> s' \<and> s' < s \<longrightarrow> \<not> fits info occupancy s'" by blast
        have "\<forall>s'. slot \<le> s' \<and> s' < s \<longrightarrow> \<not> fits info occupancy s'"
          using ext [OF s(5)] by blast
        with s step show ?thesis by auto
      next
        assume n: "find_slot_loop info occupancy latest_start (slot + 1) = Inr None
                    \<and> (\<forall>s'. slot + 1 \<le> s' \<and> s' \<le> latest_start \<longrightarrow> \<not> fits info occupancy s')"
        have "\<forall>s'. slot \<le> s' \<and> s' \<le> latest_start \<longrightarrow> \<not> fits info occupancy s'"
        proof (intro allI impI)
          fix s' assume "slot \<le> s' \<and> s' \<le> latest_start"
          then show "\<not> fits info occupancy s'"
            using n nf by (cases "s' = slot") auto
        qed
        with n step show ?thesis by simp
      qed
    next
      case ontime: False
      have af: "all_free occupancy slot end_slot
                = Inr (\<forall>k. slot \<le> k \<and> k < end_slot \<longrightarrow> \<not> occupancy ! nat k)"
        using "1.prems" True by (intro all_free_eq) (auto simp: end_slot_def)
      show ?thesis
      proof (cases "\<forall>k. slot \<le> k \<and> k < end_slot \<longrightarrow> \<not> occupancy ! nat k")
        case free: True
        have af': "all_free occupancy slot (slot + duration_slots info) = Inr True"
          using af free by (simp add: end_slot_def)
        have "find_slot_loop info occupancy latest_start slot = Inr (Some slot)"
          using True ontime
          by (subst find_slot_loop.simps) (simp add: end_slot_def Let_def af')
        moreover have "fits info occupancy slot"
          using ontime free by (simp add: fits_def end_slot_def)
        ultimately show ?thesis using True by auto
      next
        case busy: False
        have af': "all_free occupancy slot (slot + duration_slots info) = Inr False"
          using af busy by (simp add: end_slot_def)
        have step: "find_slot_loop info occupancy latest_start slot
                    = find_slot_loop info occupancy latest_start (slot + 1)"
          using True ontime
          by (subst find_slot_loop.simps) (simp add: end_slot_def Let_def af')
        have nf: "\<not> fits info occupancy slot" using busy by (simp add: fits_def end_slot_def)
        have ih: "(\<exists>s. find_slot_loop info occupancy latest_start (slot + 1) = Inr (Some s)
                      \<and> slot + 1 \<le> s \<and> s \<le> latest_start \<and> fits info occupancy s
                      \<and> (\<forall>s'. slot + 1 \<le> s' \<and> s' < s \<longrightarrow> \<not> fits info occupancy s'))
                 \<or> (find_slot_loop info occupancy latest_start (slot + 1) = Inr None
                      \<and> (\<forall>s'. slot + 1 \<le> s' \<and> s' \<le> latest_start \<longrightarrow> \<not> fits info occupancy s'))"
          using "1.IH"(2) [OF True end_slot_def ontime af' [folded end_slot_def]] "1.prems"
          by simp
        from ih show ?thesis
        proof
          assume "\<exists>s. find_slot_loop info occupancy latest_start (slot + 1) = Inr (Some s)
                      \<and> slot + 1 \<le> s \<and> s \<le> latest_start \<and> fits info occupancy s
                      \<and> (\<forall>s'. slot + 1 \<le> s' \<and> s' < s \<longrightarrow> \<not> fits info occupancy s')"
          then obtain s where s: "find_slot_loop info occupancy latest_start (slot + 1) = Inr (Some s)"
            "slot + 1 \<le> s" "s \<le> latest_start" "fits info occupancy s"
            "\<forall>s'. slot + 1 \<le> s' \<and> s' < s \<longrightarrow> \<not> fits info occupancy s'" by blast
          have "\<forall>s'. slot \<le> s' \<and> s' < s \<longrightarrow> \<not> fits info occupancy s'"
          proof (intro allI impI)
            fix s' assume "slot \<le> s' \<and> s' < s"
            then show "\<not> fits info occupancy s'"
              using s(5) nf by (cases "s' = slot") auto
          qed
          with s step show ?thesis by auto
        next
          assume n: "find_slot_loop info occupancy latest_start (slot + 1) = Inr None
                      \<and> (\<forall>s'. slot + 1 \<le> s' \<and> s' \<le> latest_start \<longrightarrow> \<not> fits info occupancy s')"
          have "\<forall>s'. slot \<le> s' \<and> s' \<le> latest_start \<longrightarrow> \<not> fits info occupancy s'"
          proof (intro allI impI)
            fix s' assume "slot \<le> s' \<and> s' \<le> latest_start"
            then show "\<not> fits info occupancy s'"
              using n nf by (cases "s' = slot") auto
          qed
          with n step show ?thesis by simp
        qed
      qed
    qed
  qed
qed

section \<open>Empty requests\<close>

text \<open>
  Claim C7. For a request without tasks both schedulers return no assignments, no
  unscheduled tasks and the objective value \<open>0\<close>, whatever the configuration and
  whatever the solver would answer.
\<close>

theorem empty_request_result:
  assumes "tasks request = []"
  shows "swo_schedule swo request
           = Inr \<lparr>assignments = [], unscheduled_tasks = [], objective_value = Some 0\<rparr>
         \<and> cp_schedule cp request outcome
           = Inr \<lparr>assignments = [], unscheduled_tasks = [], objective_value = Some 0\<rparr>"
  using assms by (simp add: swo_schedule_def cp_schedule_def)

theorem empty_request_result_witness:
  "swo_schedule default_swo
     \<lparr>tasks = [], meetings = [\<lparr>meeting_id = ''m'', meeting_start = at_minute 600,
                                meeting_end = at_minute 660\<rparr>],
      previous_assignments = None, neighborhood_window = None\<rparr>
   = Inr \<lparr>assignments = [], unscheduled_tasks = [], objective_value = Some 0\<rparr>
   \<and> cp_schedule default_cp
     \<lparr>tasks = [], meetings = [\<lparr>meeting_id = ''m'', meeting_start = at_minute 600,
                                meeting_end = at_minute 660\<rparr>],
      previous_assignments = None, neighborhood_window = None\<rparr> (INFEASIBLE, [])
   = Inr \<lparr>assignments = [], unscheduled_tasks = [], objective_value = Some 0\<rparr>"
  by (rule empty_request_result) simp

section \<open>Invariants of the squeaky-wheel construction\<close>

lemma mark_occupied_spec:
  "0 \<le> slot \<Longrightarrow> end_slot \<le> int (length occ) \<Longrightarrow>
   \<exists>occ'. mark_occupied occ slot end_slot = Inr occ' \<and> length occ' = length occ
      \<and> (\<forall>k < length occ. occ' ! k = (occ ! k \<or> (slot \<le> int k \<and> int k < end_slot)))"
proof (induction occ slot end_slot rule: mark_occupied.induct)
  case (1 occupancy slot end_slot)
  show ?case
  proof (cases "slot < end_slot")
    case False
    then have "mark_occupied occupancy slot end_slot = Inr occupancy"
      by (subst mark_occupied.simps) simp
    with False show ?thesis by auto
  next
    case True
    with "1.prems" have ps: "py_set occupancy slot True = Inr (occupancy[nat slot := True])"
      by (simp add: py_set_in_range)
    have step: "mark_occupied occupancy slot end_slot
                = mark_occupied (occupancy[nat slot := True]) (slot + 1) end_slot"
      using True by (subst mark_occupied.simps) (simp add: ps)
    from "1.IH" [OF True ps] "1.prems"
    obtain occ' where o: "mark_occupied (occupancy[nat slot := True]) (slot + 1) end_slot = Inr occ'"
      "length occ' = length occupancy"
      "\<forall>k < length occupancy. occ' ! k
          = ((occupancy[nat slot := True]) ! k \<or> (slot + 1 \<le> int k \<and> int k < end_slot))"
      by auto
    have "\<forall>k < length occupancy. occ' ! k = (occupancy ! k \<or> (slot \<le> int k \<and> int k < end_slot))"
    proof (intro allI impI)
      fix k assume k: "k < length occupancy"
      show "occ' ! k = (occupancy ! k \<or> (slot \<le> int k \<and> int k < end_slot))"
      proof (cases "k = nat slot")
        case True
        with k o(3) "1.prems" \<open>slot < end_slot\<close> show ?thesis by auto
      next
        case False
        with k o(3) "1.prems" show ?thesis by auto
      qed
    qed
    with o step show ?thesis by auto
  qed
qed

lemma find_slot_spec:
  assumes "0 \<le> earliest_slot info" and "horizon_slots = int (length occ)"
  shows "(\<exists>s. find_slot info occ horizon_slots = Inr (Some s)
            \<and> earliest_slot info \<le> s \<and> s \<le> latest_start_slot info
            \<and> s + duration_slots info \<le> horizon_slots \<and> fits info occ s
            \<and> (\<forall>s'. earliest_slot info \<le> s' \<and> s' < s \<longrightarrow> \<not> fits info occ s'))
         \<or> (find_slot info occ horizon_slots = Inr None
            \<and> (\<forall>s'. earliest_slot info \<le> s' \<and> s' \<le> latest_start_slot info
                    \<and> s' + duration_slots info \<le> horizon_slots \<longrightarrow> \<not> fits info occ s'))"
proof -
  define ls where "ls = min (latest_start_slot info) (horizon_slots - duration_slots info)"
  have b: "ls + duration_slots info \<le> int (length occ)"
    using assms(2) by (simp add: ls_def)
  have f: "find_slot info occ horizon_slots = find_slot_loop info occ ls (earliest_slot info)"
    by (simp add: find_slot_def ls_def Let_def)
  from find_slot_loop_spec [OF assms(1) b] show ?thesis
    unfolding f by (auto simp: ls_def)
qed

lemma construct_step_inv:
  assumes inv: "placed_ok infos base_occ occ assigned"
    and info: "infos (task_id t) = Some info"
    and es: "0 \<le> earliest_slot info"
    and h: "horizon_slots = int (length occ)"
  shows "\<exists>occ' assigned' unscheduled'.
           construct_step infos horizon_slots t (occ, assigned, unscheduled)
             = Inr (occ', assigned', unscheduled')
           \<and> placed_ok infos base_occ occ' assigned'
           \<and> ((assigned' = assigned \<and> unscheduled' = unscheduled @ [task_id t])
              \<or> (unscheduled' = unscheduled
                  \<and> (\<exists>s. assigned' = AList.update (task_id t) s assigned)))"
proof -
  from find_slot_spec [OF es h]
  consider (found) s where "find_slot info occ horizon_slots = Inr (Some s)"
      "earliest_slot info \<le> s" "s + duration_slots info \<le> horizon_slots" "fits info occ s"
    | (none) "find_slot info occ horizon_slots = Inr None"
    by blast
  then show ?thesis
  proof cases
    case none
    then have "construct_step infos horizon_slots t (occ, assigned, unscheduled)
               = Inr (occ, assigned, unscheduled @ [task_id t])"
      by (simp add: construct_step_def info)
    with inv show ?thesis by simp
  next
    case found
    have s0: "0 \<le> s" using es found(2) by simp
    have e: "s + duration_slots info \<le> int (length occ)" using found(3) h by simp
    from mark_occupied_spec [OF s0 e]
    obtain occ' where o: "mark_occupied occ s (s + duration_slots info) = Inr occ'"
      "length occ' = length occ"
      "\<forall>k < length occ. occ' ! k = (occ ! k \<or> (s \<le> int k \<and> int k < s + duration_slots info))"
      by blast
    have step: "construct_step infos horizon_slots t (occ, assigned, unscheduled)
                = Inr (occ', AList.update (task_id t) s assigned, unscheduled)"
      by (simp add: construct_step_def info found(1) o(1))
    have free: "\<forall>k \<in> seg_slots s (duration_slots info). \<not> occ ! nat k"
      using found(4) by (simp add: fits_def seg_slots_def)
    have len: "length occ = length base_occ" and mono: "\<forall>k < length occ. base_occ ! k \<longrightarrow> occ ! k"
      and dist: "distinct (map fst assigned)"
      using inv by (simp_all add: placed_ok_def)
    have old: "\<And>tid s'. map_of assigned tid = Some s' \<Longrightarrow>
                  \<exists>i. infos tid = Some i \<and> placed i base_occ occ s'"
      using inv by (simp add: placed_ok_def)
    have inrange: "\<And>k. k \<in> seg_slots s (duration_slots info) \<Longrightarrow> 0 \<le> k \<and> nat k < length occ"
      using s0 e by (auto simp: seg_slots_def)
    have occ'_at: "\<And>k. 0 \<le> k \<Longrightarrow> nat k < length occ \<Longrightarrow>
                     occ' ! nat k = (occ ! nat k \<or> k \<in> seg_slots s (duration_slots info))"
      using o(3) by (auto simp: seg_slots_def)
    have new_placed: "placed info base_occ occ' s"
      unfolding placed_def
    proof (intro conjI ballI)
      show "0 \<le> s" by (rule s0)
      show "earliest_slot info \<le> s" by (rule found(2))
      show "s + duration_slots info \<le> due_slot info" using found(4) by (simp add: fits_def)
      show "s + duration_slots info \<le> int (length occ')" using e o(2) by simp
    next
      fix k assume k: "k \<in> seg_slots s (duration_slots info)"
      from inrange [OF k] have r: "0 \<le> k" "nat k < length occ" by simp_all
      show "occ' ! nat k" using occ'_at [OF r] k by simp
      show "\<not> base_occ ! nat k" using mono r(2) free k by blast
    qed
    have old_placed: "\<And>i s'. placed i base_occ occ s' \<Longrightarrow> placed i base_occ occ' s'"
    proof -
      fix i s' assume p: "placed i base_occ occ s'"
      show "placed i base_occ occ' s'"
        unfolding placed_def
      proof (intro conjI ballI)
        show "0 \<le> s'" "earliest_slot i \<le> s'" "s' + duration_slots i \<le> due_slot i"
          using p by (simp_all add: placed_def)
        show "s' + duration_slots i \<le> int (length occ')" using p o(2) by (simp add: placed_def)
      next
        fix k assume k: "k \<in> seg_slots s' (duration_slots i)"
        have r: "0 \<le> k" "nat k < length occ" using p k by (auto simp: placed_def seg_slots_def)
        have "occ ! nat k" using p k by (simp add: placed_def)
        then show "occ' ! nat k" using occ'_at [OF r] by simp
        show "\<not> base_occ ! nat k" using p k by (simp add: placed_def)
      qed
    qed
    have new_disj: "\<And>tid s' i. map_of assigned tid = Some s' \<Longrightarrow> infos tid = Some i \<Longrightarrow>
        seg_slots s (duration_slots info) \<inter> seg_slots s' (duration_slots i) = {}"
    proof -
      fix tid s' i assume a: "map_of assigned tid = Some s'" "infos tid = Some i"
      from old [OF a(1)] a(2) have p: "placed i base_occ occ s'" by simp
      then have "\<forall>k \<in> seg_slots s' (duration_slots i). occ ! nat k" by (simp add: placed_def)
      with free show "seg_slots s (duration_slots info) \<inter> seg_slots s' (duration_slots i) = {}"
        by blast
    qed
    have mo: "map_of (AList.update (task_id t) s assigned) = (map_of assigned)(task_id t \<mapsto> s)"
      by (rule update_conv')
    have "placed_ok infos base_occ occ' (AList.update (task_id t) s assigned)"
      unfolding placed_ok_def
    proof (intro conjI allI impI)
      show "length occ' = length base_occ" using o(2) len by simp
    next
      fix k assume "k < length occ'" "base_occ ! k"
      then show "occ' ! k" using o(2,3) mono by simp
    next
      show "distinct (map fst (AList.update (task_id t) s assigned))"
        using dist by (rule distinct_update)
    next
      fix tid s' assume "map_of (AList.update (task_id t) s assigned) tid = Some s'"
      then have c: "(tid = task_id t \<and> s' = s) \<or> (tid \<noteq> task_id t \<and> map_of assigned tid = Some s')"
        unfolding mo by (auto split: if_splits)
      then show "\<exists>i. infos tid = Some i \<and> placed i base_occ occ' s'"
      proof
        assume "tid = task_id t \<and> s' = s"
        then show ?thesis using info new_placed by simp
      next
        assume "tid \<noteq> task_id t \<and> map_of assigned tid = Some s'"
        then show ?thesis using old old_placed by blast
      qed
    next
      fix t1 s1 t2 s2 i1 i2
      assume a: "map_of (AList.update (task_id t) s assigned) t1 = Some s1
                 \<and> map_of (AList.update (task_id t) s assigned) t2 = Some s2
                 \<and> t1 \<noteq> t2 \<and> infos t1 = Some i1 \<and> infos t2 = Some i2"
      have olddis: "\<And>t1 s1 t2 s2 i1 i2. map_of assigned t1 = Some s1 \<Longrightarrow> map_of assigned t2 = Some s2
            \<Longrightarrow> t1 \<noteq> t2 \<Longrightarrow> infos t1 = Some i1 \<Longrightarrow> infos t2 = Some i2 \<Longrightarrow>
            seg_slots s1 (duration_slots i1) \<inter> seg_slots s2 (duration_slots i2) = {}"
        using inv unfolding placed_ok_def by blast
      show "seg_slots s1 (duration_slots i1) \<inter> seg_slots s2 (duration_slots i2) = {}"
      proof (cases "t1 = task_id t")
        case True
        with a have "s1 = s" "i1 = info" "map_of assigned t2 = Some s2"
          unfolding mo using info by (auto split: if_splits)
        with new_disj [of t2 s2 i2] a show ?thesis by simp
      next
        case n1: False
        show ?thesis
        proof (cases "t2 = task_id t")
          case True
          with a n1 have "s2 = s" "i2 = info" "map_of assigned t1 = Some s1"
            unfolding mo using info by (auto split: if_splits)
          with new_disj [of t1 s1 i1] a show ?thesis by blast
        next
          case False
          with a n1 have "map_of assigned t1 = Some s1" "map_of assigned t2 = Some s2"
            unfolding mo by (auto split: if_splits)
          with olddis a show ?thesis by blast
        qed
      qed
    qed
    with step show ?thesis by blast
  qed
qed

lemma construct_loop_inv:
  assumes "placed_ok infos base_occ occ assigned"
    and "horizon_slots = int (length base_occ)"
    and "\<forall>t \<in> set order. \<exists>info. infos (task_id t) = Some info \<and> 0 \<le> earliest_slot info"
    and "\<forall>tid \<in> C. tid \<in> set unscheduled \<or> map_of assigned tid \<noteq> None"
  shows "\<exists>occ' assigned' unscheduled'.
           construct_loop infos horizon_slots order (occ, assigned, unscheduled)
             = Inr (occ', assigned', unscheduled')
           \<and> placed_ok infos base_occ occ' assigned'
           \<and> (\<forall>tid \<in> C \<union> task_id ` set order.
                 tid \<in> set unscheduled' \<or> map_of assigned' tid \<noteq> None)"
  using assms
proof (induction order arbitrary: occ assigned unscheduled C)
  case Nil
  then show ?case by simp
next
  case (Cons t order)
  from Cons.prems(3) obtain info where info: "infos (task_id t) = Some info"
    "0 \<le> earliest_slot info" by auto
  have h: "horizon_slots = int (length occ)"
    using Cons.prems(1,2) by (simp add: placed_ok_def)
  from construct_step_inv [OF Cons.prems(1) info h, of unscheduled]
  obtain occ1 a1 u1 where st: "construct_step infos horizon_slots t (occ, assigned, unscheduled)
      = Inr (occ1, a1, u1)" "placed_ok infos base_occ occ1 a1"
      "(a1 = assigned \<and> u1 = unscheduled @ [task_id t])
       \<or> (u1 = unscheduled \<and> (\<exists>s. a1 = AList.update (task_id t) s assigned))"
    by blast
  have cov: "\<forall>tid \<in> insert (task_id t) C. tid \<in> set u1 \<or> map_of a1 tid \<noteq> None"
  proof
    fix tid assume tid: "tid \<in> insert (task_id t) C"
    from st(3) show "tid \<in> set u1 \<or> map_of a1 tid \<noteq> None"
    proof
      assume a: "a1 = assigned \<and> u1 = unscheduled @ [task_id t]"
      show ?thesis
      proof (cases "tid = task_id t")
        case True then show ?thesis using a by simp
      next
        case False
        with tid have "tid \<in> C" by simp
        with Cons.prems(4) a show ?thesis by auto
      qed
    next
      assume a: "u1 = unscheduled \<and> (\<exists>s. a1 = AList.update (task_id t) s assigned)"
      then obtain s where s: "a1 = AList.update (task_id t) s assigned" by blast
      show ?thesis
      proof (cases "tid = task_id t")
        case True then show ?thesis using s by (simp add: update_conv')
      next
        case False
        with tid have "tid \<in> C" by simp
        with Cons.prems(4) a s False show ?thesis by (auto simp: update_conv')
      qed
    qed
  qed
  have rest: "\<forall>t \<in> set order. \<exists>info. infos (task_id t) = Some info \<and> 0 \<le> earliest_slot info"
    using Cons.prems(3) by simp
  from Cons.IH [OF st(2) Cons.prems(2) rest cov]
  obtain occ' a' u' where r: "construct_loop infos horizon_slots order (occ1, a1, u1) = Inr (occ', a', u')"
    "placed_ok infos base_occ occ' a'"
    "\<forall>tid \<in> insert (task_id t) C \<union> task_id ` set order. tid \<in> set u' \<or> map_of a' tid \<noteq> None"
    by blast
  have "construct_loop infos horizon_slots (t # order) (occ, assigned, unscheduled) = Inr (occ', a', u')"
    using st(1) r(1) by simp
  with r(2,3) show ?case by auto
qed

lemma placed_ok_init: "placed_ok infos base_occ base_occ []"
  by (simp add: placed_ok_def)

lemma construct_schedule_inv:
  assumes "horizon_slots = int (length base_occ)"
    and "\<forall>t \<in> set order. \<exists>info. infos (task_id t) = Some info \<and> 0 \<le> earliest_slot info"
  shows "\<exists>occ assigned unscheduled.
           construct_schedule order infos base_occ horizon_slots = Inr (assigned, unscheduled)
           \<and> placed_ok infos base_occ occ assigned
           \<and> (\<forall>tid \<in> task_id ` set order. tid \<in> set unscheduled \<or> map_of assigned tid \<noteq> None)"
proof -
  have c: "\<forall>tid \<in> {}. tid \<in> set ([]::string list) \<or> map_of ([]::(string \<times> int) list) tid \<noteq> None"
    by simp
  from construct_loop_inv [OF placed_ok_init assms c]
  obtain occ a u where "construct_loop infos horizon_slots order (base_occ, [], []) = Inr (occ, a, u)"
    "placed_ok infos base_occ occ a"
    "\<forall>tid \<in> {} \<union> task_id ` set order. tid \<in> set u \<or> map_of a tid \<noteq> None"
    by blast
  then show ?thesis by (auto simp: construct_schedule_def)
qed

lemma build_items_total:
  "\<forall>p \<in> set assigned. infos (fst p) \<noteq> None \<Longrightarrow>
   build_items infos ix assigned
     = Inr (map (\<lambda>p. build_assigned ix (the (infos (fst p))) (fst p) (snd p)) assigned)"
proof (induction assigned)
  case Nil
  then show ?case by simp
next
  case (Cons p assigned)
  obtain tid s where p: "p = (tid, s)" by (cases p)
  from Cons.prems obtain info where i: "infos tid = Some info" by (auto simp: p)
  from Cons show ?case by (simp add: p i)
qed

lemma evaluate_penalties_total:
  "\<forall>p \<in> set items. fst p \<in> set unscheduled \<or> map_of assigned (fst p) \<noteq> None \<Longrightarrow>
   \<exists>ps. evaluate_penalties cfg assigned unscheduled items = Inr ps"
proof (induction items)
  case Nil
  then show ?case by simp
next
  case (Cons p items)
  obtain tid info where p: "p = (tid, info)" by (cases p)
  from Cons.prems have "tid \<in> set unscheduled \<or> map_of assigned tid \<noteq> None" by (simp add: p)
  then have "\<exists>q. penalty_of cfg assigned unscheduled tid info = Inr q"
    by (cases "tid \<in> set unscheduled") (auto simp: penalty_of_def Let_def)
  then obtain q where q: "penalty_of cfg assigned unscheduled tid info = Inr q" by blast
  from Cons obtain ps where "evaluate_penalties cfg assigned unscheduled items = Inr ps" by auto
  with q show ?case by (simp add: p)
qed

lemma sorted_wrt_insort_key_sym:
  "(\<forall>y \<in> set ys. Q x y \<and> Q y x) \<Longrightarrow> sorted_wrt Q ys \<Longrightarrow> sorted_wrt Q (insort_key f x ys)"
  by (induction ys) (auto simp: set_insort_key)

lemma sorted_wrt_sort_key_sym:
  assumes "\<And>a b. Q a b \<Longrightarrow> Q b a"
  shows "sorted_wrt Q xs \<Longrightarrow> sorted_wrt Q (sort_key f xs)"
proof (induction xs)
  case Nil
  then show ?case by simp
next
  case (Cons x xs)
  then have "sorted_wrt Q (sort_key f xs)" by simp
  moreover have "\<forall>y \<in> set (sort_key f xs). Q x y \<and> Q y x"
    using Cons.prems assms by auto
  ultimately have "sorted_wrt Q (insort_key f x (sort_key f xs))"
    by (intro sorted_wrt_insort_key_sym) auto
  then show ?case by (simp add: sort_key_def)
qed

lemma sorted_wrt_distinct_keys:
  "distinct (map fst al) \<Longrightarrow>
   (\<forall>p \<in> set al. \<forall>q \<in> set al. fst p \<noteq> fst q \<longrightarrow> Q (f p) (f q)) \<Longrightarrow>
   sorted_wrt Q (map f al)"
proof (induction al)
  case Nil
  then show ?case by simp
next
  case (Cons p al)
  have "\<forall>q \<in> set al. fst p \<noteq> fst q" using Cons.prems(1) by auto
  then have "\<forall>q \<in> set al. Q (f p) (f q)" using Cons.prems(2) by auto
  moreover have "sorted_wrt Q (map f al)" using Cons by auto
  ultimately show ?case by simp
qed

lemma seg_slots_disjoint:
  assumes "seg_slots s1 d1 \<inter> seg_slots s2 d2 = {}" and "1 \<le> d1" and "1 \<le> d2"
  shows "s1 + d1 \<le> s2 \<or> s2 + d2 \<le> s1"
proof (rule ccontr)
  assume "\<not> (s1 + d1 \<le> s2 \<or> s2 + d2 \<le> s1)"
  then have "max s1 s2 \<in> seg_slots s1 d1 \<inter> seg_slots s2 d2"
    using assms(2,3) by (auto simp: seg_slots_def)
  with assms(1) show False by simp
qed

lemma to_datetime_mono:
  "0 < granularity ix \<Longrightarrow> a \<le> b \<Longrightarrow> to_datetime ix a \<le> to_datetime ix b"
  by (simp add: to_datetime_def MICROS_PER_MINUTE_def mult_right_mono)

lemma build_assigned_fields [simp]:
  "a_task_id (build_assigned ix info tid s) = tid"
  "a_start (build_assigned ix info tid s) = to_datetime ix s"
  "a_end (build_assigned ix info tid s) = to_datetime ix (s + duration_slots info)"
  by (simp_all add: build_assigned_def Let_def)

lemma placed_admissible:
  "placed info base_occ occ s \<Longrightarrow> length occ = length base_occ \<Longrightarrow> slot_admissible info base_occ s"
  by (simp add: placed_def slot_admissible_def)

lemma swo_pass_ok:
  assumes g: "0 < granularity ix"
    and h: "horizon_slots = int (length base_occ)"
    and infos: "\<forall>tid info. map_of items tid = Some info \<longrightarrow>
                  0 \<le> earliest_slot info \<and> 1 \<le> duration_slots info"
    and ord: "\<forall>t \<in> set order. map_of items (task_id t) \<noteq> None"
    and keys: "fst ` set items \<subseteq> task_id ` set order"
  shows "\<exists>assigned unscheduled r ps.
           construct_schedule order (map_of items) base_occ horizon_slots = Inr (assigned, unscheduled)
           \<and> build_result assigned unscheduled (map_of items) ix = Inr r
           \<and> evaluate_penalties cfg assigned unscheduled items = Inr ps
           \<and> swo_assignments_ok (map_of items) ix base_occ (assignments r)"
proof -
  let ?infos = "map_of items"
  have o: "\<forall>t \<in> set order. \<exists>info. ?infos (task_id t) = Some info \<and> 0 \<le> earliest_slot info"
    using ord infos by auto
  from construct_schedule_inv [OF h o]
  obtain occ assigned unscheduled where
    cs: "construct_schedule order ?infos base_occ horizon_slots = Inr (assigned, unscheduled)"
    and ok: "placed_ok ?infos base_occ occ assigned"
    and cov: "\<forall>tid \<in> task_id ` set order. tid \<in> set unscheduled \<or> map_of assigned tid \<noteq> None"
    by blast
  have len: "length occ = length base_occ" and dist: "distinct (map fst assigned)"
    using ok by (simp_all add: placed_ok_def)
  have entry: "\<And>tid s. (tid, s) \<in> set assigned \<Longrightarrow>
                 \<exists>info. ?infos tid = Some info \<and> placed info base_occ occ s"
  proof -
    fix tid s assume "(tid, s) \<in> set assigned"
    with dist have "map_of assigned tid = Some s" by simp
    with ok show "\<exists>info. ?infos tid = Some info \<and> placed info base_occ occ s"
      unfolding placed_ok_def by blast
  qed
  let ?f = "\<lambda>p. build_assigned ix (the (?infos (fst p))) (fst p) (snd p)"
  have all: "\<forall>p \<in> set assigned. ?infos (fst p) \<noteq> None"
    using entry by force
  have bi: "build_items ?infos ix assigned = Inr (map ?f assigned)"
    by (rule build_items_total [OF all])
  define r where "r = \<lparr>assignments = sort_key a_start (map ?f assigned),
                        unscheduled_tasks = unscheduled, objective_value = None\<rparr>"
  have br: "build_result assigned unscheduled ?infos ix = Inr r"
    by (simp add: build_result_def bi r_def)
  have "\<forall>p \<in> set items. fst p \<in> set unscheduled \<or> map_of assigned (fst p) \<noteq> None"
  proof
    fix p assume "p \<in> set items"
    then have "fst p \<in> task_id ` set order" using keys by blast
    with cov show "fst p \<in> set unscheduled \<or> map_of assigned (fst p) \<noteq> None" by blast
  qed
  from evaluate_penalties_total [OF this]
  obtain ps where ep: "evaluate_penalties cfg assigned unscheduled items = Inr ps" by blast
  have pair: "\<forall>p \<in> set assigned. \<forall>q \<in> set assigned. fst p \<noteq> fst q \<longrightarrow>
                non_overlapping (?f p) (?f q)"
  proof (intro ballI impI)
    fix p q assume p: "p \<in> set assigned" and q: "q \<in> set assigned" and ne: "fst p \<noteq> fst q"
    obtain t1 s1 where p': "p = (t1, s1)" by (cases p)
    obtain t2 s2 where q': "q = (t2, s2)" by (cases q)
    from entry p p' obtain i1 where i1: "?infos t1 = Some i1" by blast
    from entry q q' obtain i2 where i2: "?infos t2 = Some i2" by blast
    have m1: "map_of assigned t1 = Some s1" using dist p p' by simp
    have m2: "map_of assigned t2 = Some s2" using dist q q' by simp
    have ne': "t1 \<noteq> t2" using ne by (simp add: p' q')
    have dj: "\<forall>t1 s1 t2 s2 i1 i2. map_of assigned t1 = Some s1 \<and> map_of assigned t2 = Some s2
            \<and> t1 \<noteq> t2 \<and> ?infos t1 = Some i1 \<and> ?infos t2 = Some i2 \<longrightarrow>
            seg_slots s1 (duration_slots i1) \<inter> seg_slots s2 (duration_slots i2) = {}"
      using ok unfolding placed_ok_def by blast
    have "seg_slots s1 (duration_slots i1) \<inter> seg_slots s2 (duration_slots i2) = {}"
      using dj m1 m2 ne' i1 i2 by blast
    moreover have "1 \<le> duration_slots i1" "1 \<le> duration_slots i2"
      using infos i1 i2 by auto
    ultimately have "s1 + duration_slots i1 \<le> s2 \<or> s2 + duration_slots i2 \<le> s1"
      by (rule seg_slots_disjoint)
    then show "non_overlapping (?f p) (?f q)"
      using to_datetime_mono [OF g] by (auto simp: non_overlapping_def p' q' i1 i2)
  qed
  have sw: "sorted_wrt non_overlapping (map ?f assigned)"
    using dist pair by (rule sorted_wrt_distinct_keys [where f = ?f and Q = non_overlapping])
  have sym: "\<And>a b. non_overlapping a b \<Longrightarrow> non_overlapping b a"
    by (auto simp: non_overlapping_def)
  have s1: "sorted_wrt non_overlapping (assignments r)"
    unfolding r_def using sorted_wrt_sort_key_sym [OF sym sw] by simp
  have s2: "\<forall>a \<in> set (assignments r). \<exists>info s. ?infos (a_task_id a) = Some info
            \<and> a = build_assigned ix info (a_task_id a) s \<and> slot_admissible info base_occ s"
  proof
    fix a assume "a \<in> set (assignments r)"
    then obtain p where p: "p \<in> set assigned" "a = ?f p" by (auto simp: r_def)
    obtain tid s where p': "p = (tid, s)" by (cases p)
    from entry p(1) p' obtain info where i: "?infos tid = Some info" "placed info base_occ occ s"
      by blast
    have "slot_admissible info base_occ s" using placed_admissible [OF i(2) len] .
    then show "\<exists>info s. ?infos (a_task_id a) = Some info
            \<and> a = build_assigned ix info (a_task_id a) s \<and> slot_admissible info base_occ s"
      using p(2) p' i(1) by auto
  qed
  from cs br ep s1 s2 show ?thesis unfolding swo_assignments_ok_def by blast
qed

lemma swo_iterate_inv:
  assumes pass: "\<And>order. set order = T \<Longrightarrow>
      \<exists>assigned unscheduled r ps.
        construct_schedule order (map_of items) base_occ h = Inr (assigned, unscheduled)
        \<and> build_result assigned unscheduled (map_of items) ix = Inr r
        \<and> evaluate_penalties cfg assigned unscheduled items = Inr ps
        \<and> Q (assignments r)"
  shows "set order = T \<Longrightarrow> (\<forall>b. best = Some b \<longrightarrow> Q (assignments (fst b))) \<Longrightarrow>
         \<exists>best'. swo_iterate cfg ix items base_occ h n order penalties best = Inr best'
            \<and> (\<forall>b. best' = Some b \<longrightarrow> Q (assignments (fst b)))"
proof (induction n arbitrary: order penalties best)
  case 0
  then show ?case by simp
next
  case (Suc n)
  from pass [OF Suc.prems(1)]
  obtain assigned unscheduled r ps where
    cs: "construct_schedule order (map_of items) base_occ h = Inr (assigned, unscheduled)"
    and br: "build_result assigned unscheduled (map_of items) ix = Inr r"
    and ep: "evaluate_penalties cfg assigned unscheduled items = Inr ps"
    and q: "Q (assignments r)"
    by blast
  define objective where "objective = int (length unscheduled) * unscheduled_penalty cfg"
  define best1 where "best1 = (case best of
       None \<Rightarrow> Some (r, length unscheduled, objective)
     | Some (br, bu, bo) \<Rightarrow>
         if length unscheduled < bu \<or> (length unscheduled = bu \<and> objective < bo)
         then Some (r, length unscheduled, objective)
         else Some (br, bu, bo))"
  define new_order where "new_order = sort_key (\<lambda>t. (- penalty_at ps (task_id t),
                                           - priority t, earliest_start t)) order"
  define changed where "changed = list_ex (\<lambda>t. \<bar>penalty_at ps (task_id t)
                                        - penalty_at penalties (task_id t)\<bar> > 1 / 1000000) order"
  have b1: "\<forall>b. best1 = Some b \<longrightarrow> Q (assignments (fst b))"
    using Suc.prems(2) q by (auto simp: best1_def split: option.splits if_splits)
  have unf: "swo_iterate cfg ix items base_occ h (Suc n) order penalties best
             = (if \<not> changed \<or> new_order = order then Inr best1
                else swo_iterate cfg ix items base_occ h n new_order ps best1)"
    unfolding objective_def best1_def new_order_def changed_def
    by (simp add: cs br ep Let_def)
  show ?case
  proof (cases "\<not> changed \<or> new_order = order")
    case True
    then show ?thesis using unf b1 by simp
  next
    case False
    have s: "set new_order = T" using Suc.prems(1) by (simp add: new_order_def)
    from Suc.IH [OF s b1, of ps] False unf show ?thesis by simp
  qed
qed

lemma ceil_div_ge: "0 < d \<Longrightarrow> a \<le> ceil_div a d * d"
proof -
  assume d: "0 < d"
  have "- a = (- a) div d * d + (- a) mod d" by simp
  moreover have "0 \<le> (- a) mod d" using d by simp
  ultimately have "(- a) div d * d \<le> - a" by linarith
  then show ?thesis by (simp add: ceil_div_def)
qed

lemma ceil_div_lt: "0 < d \<Longrightarrow> ceil_div a d * d < a + d"
proof -
  assume d: "0 < d"
  have "- a = (- a) div d * d + (- a) mod d" by simp
  moreover have "(- a) mod d < d" using d by simp
  ultimately have "- a < (- a) div d * d + d" by linarith
  then show ?thesis by (simp add: ceil_div_def)
qed

lemma ceil_div_mono: "0 < d \<Longrightarrow> a \<le> b \<Longrightarrow> ceil_div a d \<le> ceil_div b d"
  by (simp add: ceil_div_def zdiv_mono1)

lemma ceil_div_nonneg: "0 < d \<Longrightarrow> 0 \<le> a \<Longrightarrow> 0 \<le> ceil_div a d"
  using ceil_div_mono [of d 0 a] by (simp add: ceil_div_def)

lemma fold_min_le: "fold min xs (a::int) \<le> a \<and> (\<forall>x \<in> set xs. fold min xs a \<le> x)"
proof (induction xs arbitrary: a)
  case Nil
  then show ?case by simp
next
  case (Cons x xs)
  from Cons [of "min x a"] show ?case by auto
qed

lemma fold_max_ge: "(a::int) \<le> fold max xs a \<and> (\<forall>x \<in> set xs. x \<le> fold max xs a)"
proof (induction xs arbitrary: a)
  case Nil
  then show ?case by simp
next
  case (Cons x xs)
  from Cons [of "max x a"] show ?case by auto
qed

lemma max_default_ge: "x \<in> set xs \<Longrightarrow> x \<le> max_default xs d"
  using fold_max_ge by (cases xs) (auto simp: max_default_def)

lemma base_start_le:
  assumes "0 < g"
  shows "base_start_of g t ts ms \<le> fold min (map earliest_start ts @ map meeting_start ms) (earliest_start t)"
proof -
  have "0 \<le> minute_of x mod g" for x using assms by simp
  moreover have "floor_minute x \<le> x" for x
    by (simp add: floor_minute_def MICROS_PER_MINUTE_def)
  ultimately show ?thesis
    unfolding base_start_of_def Let_def
    by (smt (verit) MICROS_PER_MINUTE_def mult_nonneg_nonneg)
qed

lemma base_start_le_task:
  assumes "0 < g" and "t' \<in> set (t # ts)"
  shows "base_start_of g t ts ms \<le> earliest_start t'"
proof -
  define xs where "xs = map earliest_start ts @ map meeting_start ms"
  have f: "fold min xs (earliest_start t) \<le> earliest_start t"
    "\<forall>x \<in> set xs. fold min xs (earliest_start t) \<le> x"
    using fold_min_le [of xs "earliest_start t"] by simp_all
  have "t' = t \<or> earliest_start t' \<in> set xs" using assms(2) by (auto simp: xs_def)
  then have "fold min xs (earliest_start t) \<le> earliest_start t'" using f by blast
  with base_start_le [OF assms(1), of t ts ms] show ?thesis by (simp add: xs_def)
qed

lemma base_start_le_meeting:
  assumes "0 < g" and "m \<in> set ms"
  shows "base_start_of g t ts ms \<le> meeting_start m"
proof -
  define xs where "xs = map earliest_start ts @ map meeting_start ms"
  have f: "\<forall>x \<in> set xs. fold min xs (earliest_start t) \<le> x"
    using fold_min_le [of xs "earliest_start t"] by simp
  have "meeting_start m \<in> set xs" using assms(2) by (auto simp: xs_def)
  then have "fold min xs (earliest_start t) \<le> meeting_start m" using f by blast
  with base_start_le [OF assms(1), of t ts ms] show ?thesis by (simp add: xs_def)
qed

lemma fold_update_map_of:
  "map_of (fold (\<lambda>t items. AList.update (task_id t) (F t) items) ts acc) tid = Some info \<Longrightarrow>
   map_of acc tid = Some info \<or> (\<exists>t' \<in> set ts. task_id t' = tid \<and> info = F t')"
proof (induction ts arbitrary: acc)
  case Nil
  then show ?case by simp
next
  case (Cons t ts)
  from Cons.IH [of "AList.update (task_id t) (F t) acc"] Cons.prems
  have "map_of (AList.update (task_id t) (F t) acc) tid = Some info
        \<or> (\<exists>t' \<in> set ts. task_id t' = tid \<and> info = F t')" by simp
  then show ?case by (auto simp: update_conv' split: if_splits)
qed

lemma fold_update_dom:
  "dom (map_of (fold (\<lambda>t items. AList.update (task_id t) (F t) items) ts acc))
   = dom (map_of acc) \<union> task_id ` set ts"
proof (induction ts arbitrary: acc)
  case Nil
  then show ?case by simp
next
  case (Cons t ts)
  have "dom (map_of (AList.update (task_id t) (F t) acc)) = insert (task_id t) (dom (map_of acc))"
    by (simp add: dom_update dom_map_of_conv_image_fst)
  then show ?case by (simp add: Cons.IH)
qed

lemma segment_info_items_lookup:
  "map_of (segment_info_items ix h previous ts) tid = Some info \<Longrightarrow>
   \<exists>t' \<in> set ts. task_id t' = tid \<and> info = make_info ix h previous t'"
  using fold_update_map_of [of "make_info ix h previous" ts "[]" tid info]
  by (simp add: segment_info_items_def)

lemma segment_info_items_dom:
  "dom (map_of (segment_info_items ix h previous ts)) = task_id ` set ts"
  using fold_update_dom [of "make_info ix h previous" ts "[]"]
  by (simp add: segment_info_items_def)

lemma segment_info_items_keys:
  "fst ` set (segment_info_items ix h previous ts) = task_id ` set ts"
  using segment_info_items_dom [of ix h previous ts] by (simp add: dom_map_of_conv_image_fst)

lemma micros_slot_pos: "0 < g \<Longrightarrow> 0 < MICROS_PER_MINUTE * g"
  by (simp add: MICROS_PER_MINUTE_def)

lemma make_info_fields [simp]:
  "task (make_info ix h previous t) = t"
  "duration_slots (make_info ix h previous t) = duration_to_slots ix (duration_minutes t)"
  "earliest_slot (make_info ix h previous t) = to_slot_ceiling ix (earliest_start t)"
  "due_slot (make_info ix h previous t) = to_slot_ceiling ix (due t)"
  by (simp_all add: make_info_def Let_def)

lemma duration_to_slots_ge: "1 \<le> duration_to_slots ix m"
  by (simp add: duration_to_slots_def)

lemma to_slot_ceiling_nonneg:
  "0 < granularity ix \<Longrightarrow> base ix \<le> x \<Longrightarrow> 0 \<le> to_slot_ceiling ix x"
  by (simp add: to_slot_ceiling_def ceil_div_nonneg micros_slot_pos)

lemma to_slot_ceiling_mono:
  "0 < granularity ix \<Longrightarrow> x \<le> y \<Longrightarrow> to_slot_ceiling ix x \<le> to_slot_ceiling ix y"
  by (simp add: to_slot_ceiling_def ceil_div_mono micros_slot_pos)

lemma horizon_ge_10: "10 \<le> horizon_slots_of ix t ts ms"
  by (simp add: horizon_slots_of_def Let_def)

lemma horizon_ge_due:
  assumes "0 < granularity ix" and "t' \<in> set (t # ts)"
  shows "to_slot_ceiling ix (due t') + 10 \<le> horizon_slots_of ix t ts ms"
proof -
  have "due t' \<le> max_default (map due (t # ts)) (base ix)"
    using assms(2) by (intro max_default_ge) auto
  then have "to_slot_ceiling ix (due t')
      \<le> to_slot_ceiling ix (max (max_default (map due (t # ts)) (base ix))
                                 (max_default (map meeting_end ms) (base ix)))"
    by (intro to_slot_ceiling_mono [OF assms(1)]) simp
  then show ?thesis by (simp add: horizon_slots_of_def Let_def)
qed

lemma horizon_ge_meeting_end:
  assumes "0 < granularity ix" and "m \<in> set ms"
  shows "to_slot_ceiling ix (meeting_end m) + 10 \<le> horizon_slots_of ix t ts ms"
proof -
  have "meeting_end m \<le> max_default (map meeting_end ms) (base ix)"
    using assms(2) by (intro max_default_ge) auto
  then have "to_slot_ceiling ix (meeting_end m)
      \<le> to_slot_ceiling ix (max (max_default (map due (t # ts)) (base ix))
                                 (max_default (map meeting_end ms) (base ix)))"
    by (intro to_slot_ceiling_mono [OF assms(1)]) simp
  then show ?thesis by (simp add: horizon_slots_of_def Let_def)
qed

lemma length_fold_update:
  "length (fold (\<lambda>k occ. if P k then occ[f k := True] else occ) ks occ) = length occ"
  by (induction ks arbitrary: occ) auto

lemma length_mark_range [simp]: "length (mark_range occ a b) = length occ"
  using length_fold_update [of "\<lambda>k. True" nat "[a .. b - 1]" occ]
  by (simp add: mark_range_def)

lemma length_block_non_working [simp]:
  "length (block_non_working cfg ix h occ) = length occ"
  by (simp add: block_non_working_def length_fold_update)

lemma length_fold_mark:
  "length (fold (\<lambda>m occ. mark_range occ (A m) (B m)) ms occ) = length occ"
  by (induction ms arbitrary: occ) auto

lemma length_base_occupancy [simp]:
  "length (base_occupancy_of cfg ix h ms) = nat h"
  by (simp add: base_occupancy_of_def length_fold_mark)

lemma swo_schedule_master:
  assumes g: "0 < swo_granularity_minutes cfg" and ts: "tasks request = t # ts"
  defines "ix \<equiv> swo_indexer cfg t ts (meetings request)"
  defines "h \<equiv> horizon_slots_of ix t ts (meetings request)"
  defines "items \<equiv> segment_info_items ix h
     (case previous_assignments request of None \<Rightarrow> [] | Some p \<Rightarrow> p) (t # ts)"
  defines "base_occ \<equiv> base_occupancy_of cfg ix h (meetings request)"
  shows "\<exists>r. swo_schedule cfg request = Inr r
             \<and> swo_assignments_ok (map_of items) ix base_occ (assignments r)"
proof -
  have gi: "0 < granularity ix" using g by (simp add: ix_def swo_indexer_def)
  have hl: "h = int (length base_occ)"
    using horizon_ge_10 [of ix t ts "meetings request"] by (simp add: base_occ_def h_def)
  have infos: "\<forall>tid info. map_of items tid = Some info \<longrightarrow>
                  0 \<le> earliest_slot info \<and> 1 \<le> duration_slots info"
  proof (intro allI impI)
    fix tid info assume "map_of items tid = Some info"
    from segment_info_items_lookup [OF this [unfolded items_def]]
    obtain t' where t': "t' \<in> set (t # ts)" "info = make_info ix h
        (case previous_assignments request of None \<Rightarrow> [] | Some p \<Rightarrow> p) t'" by blast
    have "base ix \<le> earliest_start t'"
      using base_start_le_task [OF g t'(1)] by (simp add: ix_def swo_indexer_def)
    then show "0 \<le> earliest_slot info \<and> 1 \<le> duration_slots info"
      using t'(2) to_slot_ceiling_nonneg [OF gi] duration_to_slots_ge by simp
  qed
  have pass: "\<And>order. set order = set (t # ts) \<Longrightarrow>
      \<exists>assigned unscheduled r ps.
        construct_schedule order (map_of items) base_occ h = Inr (assigned, unscheduled)
        \<and> build_result assigned unscheduled (map_of items) ix = Inr r
        \<and> evaluate_penalties cfg assigned unscheduled items = Inr ps
        \<and> swo_assignments_ok (map_of items) ix base_occ (assignments r)"
  proof -
    fix order :: "ScheduleTask list" assume so: "set order = set (t # ts)"
    have d: "dom (map_of items) = task_id ` set order"
      using segment_info_items_dom so by (simp add: items_def)
    have ord: "\<forall>t \<in> set order. map_of items (task_id t) \<noteq> None"
      using d by blast
    have keys: "fst ` set items \<subseteq> task_id ` set order"
      using segment_info_items_keys so by (simp add: items_def)
    show "\<exists>assigned unscheduled r ps.
        construct_schedule order (map_of items) base_occ h = Inr (assigned, unscheduled)
        \<and> build_result assigned unscheduled (map_of items) ix = Inr r
        \<and> evaluate_penalties cfg assigned unscheduled items = Inr ps
        \<and> swo_assignments_ok (map_of items) ix base_occ (assignments r)"
      by (rule swo_pass_ok [OF gi hl infos ord keys])
  qed
  define order0 where "order0 = sort_key (\<lambda>t. (- priority t, earliest_start t)) (t # ts)"
  have s0: "set order0 = set (t # ts)" unfolding order0_def by (rule set_sort)
  have b0: "\<forall>b. (None :: (ScheduleResult \<times> nat \<times> int) option) = Some b
              \<longrightarrow> swo_assignments_ok (map_of items) ix base_occ (assignments (fst b))" by simp
  from swo_iterate_inv [where Q = "swo_assignments_ok (map_of items) ix base_occ"
      and T = "set (t # ts)" and best = None, OF pass s0 b0]
  obtain best' where it: "swo_iterate cfg ix items base_occ h (nat (max_iterations cfg)) order0
       (map (\<lambda>t. (task_id t, 0)) (t # ts)) None = Inr best'"
    and bq: "\<forall>b. best' = Some b \<longrightarrow> swo_assignments_ok (map_of items) ix base_occ (assignments (fst b))"
    by blast
  have unf: "swo_schedule cfg request =
      (case best' of
         None \<Rightarrow> Inr \<lparr>assignments = [],
                      unscheduled_tasks = map fst (case previous_assignments request of None \<Rightarrow> [] | Some p \<Rightarrow> p),
                      objective_value = None\<rparr>
       | Some (result, bu, bo) \<Rightarrow> Inr (result\<lparr>objective_value := Some bo\<rparr>))"
    using g it
    by (simp add: swo_schedule_def ts Let_def ix_def [symmetric] h_def [symmetric]
        items_def [symmetric] base_occ_def [symmetric] order0_def [symmetric]
        del: sort_key_simps)
  show ?thesis
  proof (cases best')
    case None
    then show ?thesis unfolding unf by (simp add: swo_assignments_ok_def)
  next
    case (Some b)
    obtain result bu bo where b: "b = (result, bu, bo)" by (cases b)
    from bq Some b have "swo_assignments_ok (map_of items) ix base_occ (assignments result)"
      by simp
    then show ?thesis unfolding unf by (simp add: Some b)
  qed
qed

section \<open>Assignments of the squeaky-wheel scheduler\<close>


lemma div_lt_slot: "0 < (D::int) \<Longrightarrow> x < k * D \<Longrightarrow> x div D < k"
proof -
  assume D: "0 < D" and x: "x < k * D"
  have "x = x div D * D + x mod D" by simp
  moreover have "0 \<le> x mod D" using D by simp
  ultimately have "x div D * D \<le> x" by linarith
  with x have "x div D * D < k * D" by linarith
  with D show ?thesis by (simp add: mult_less_cancel_right)
qed

lemma to_slot_to_datetime:
  "0 < granularity ix \<Longrightarrow> to_slot ix (to_datetime ix k) = k"
  by (simp add: to_slot_def to_datetime_def MICROS_PER_MINUTE_def)

lemma to_datetime_ceiling_ge:
  "0 < granularity ix \<Longrightarrow> x \<le> to_datetime ix (to_slot_ceiling ix x)"
  using ceil_div_ge [of "MICROS_PER_MINUTE * granularity ix" "x - base ix"] micros_slot_pos [of "granularity ix"]
  by (simp add: to_slot_ceiling_def to_datetime_def mult.commute mult.left_commute)

lemma to_datetime_ceiling_lt:
  "0 < granularity ix \<Longrightarrow>
   to_datetime ix (to_slot_ceiling ix x) < x + granularity ix * MICROS_PER_MINUTE"
  using ceil_div_lt [of "MICROS_PER_MINUTE * granularity ix" "x - base ix"] micros_slot_pos [of "granularity ix"]
  by (simp add: to_slot_ceiling_def to_datetime_def mult.commute mult.left_commute)

lemma swo_assignment_facts:
  assumes g: "0 < swo_granularity_minutes cfg" and ts: "tasks request = t # ts"
  defines "ix \<equiv> swo_indexer cfg t ts (meetings request)"
  defines "h \<equiv> horizon_slots_of ix t ts (meetings request)"
  defines "previous \<equiv> (case previous_assignments request of None \<Rightarrow> [] | Some p \<Rightarrow> p)"
  defines "base_occ \<equiv> base_occupancy_of cfg ix h (meetings request)"
  shows "\<exists>r. swo_schedule cfg request = Inr r
           \<and> sorted_wrt non_overlapping (assignments r)
           \<and> (\<forall>a \<in> set (assignments r). \<exists>t' s. t' \<in> set (t # ts) \<and> task_id t' = a_task_id a
                 \<and> a = build_assigned ix (make_info ix h previous t') (a_task_id a) s
                 \<and> slot_admissible (make_info ix h previous t') base_occ s)"
proof -
  from swo_schedule_master [OF g ts]
  obtain r where r: "swo_schedule cfg request = Inr r"
    "swo_assignments_ok (map_of (segment_info_items ix h previous (t # ts))) ix base_occ (assignments r)"
    unfolding ix_def h_def previous_def base_occ_def by blast
  have "\<forall>a \<in> set (assignments r). \<exists>t' s. t' \<in> set (t # ts) \<and> task_id t' = a_task_id a
                 \<and> a = build_assigned ix (make_info ix h previous t') (a_task_id a) s
                 \<and> slot_admissible (make_info ix h previous t') base_occ s"
  proof
    fix a assume "a \<in> set (assignments r)"
    with r(2) obtain info s where i:
      "map_of (segment_info_items ix h previous (t # ts)) (a_task_id a) = Some info"
      "a = build_assigned ix info (a_task_id a) s" "slot_admissible info base_occ s"
      unfolding swo_assignments_ok_def by blast
    from segment_info_items_lookup [OF i(1)]
    obtain t' where "t' \<in> set (t # ts)" "task_id t' = a_task_id a"
      "info = make_info ix h previous t'" by blast
    with i(2,3) show "\<exists>t' s. t' \<in> set (t # ts) \<and> task_id t' = a_task_id a
                 \<and> a = build_assigned ix (make_info ix h previous t') (a_task_id a) s
                 \<and> slot_admissible (make_info ix h previous t') base_occ s" by blast
  qed
  with r show ?thesis unfolding swo_assignments_ok_def by blast
qed

lemma build_assigned_tardiness:
  "tardiness_minutes (build_assigned ix info tid s)
   = (if to_datetime ix (s + duration_slots info) > due (task info)
      then (to_datetime ix (s + duration_slots info) - due (task info)) div MICROS_PER_MINUTE
      else 0)"
  by (simp add: build_assigned_def Let_def)

text \<open>
  Claim C10. For a request with tasks, every assignment returned by the squeaky-wheel
  scheduler ends at a slot at or before the ceiling slot of the due instant of its task,
  and its tardiness in minutes is below the granularity.
\<close>

theorem swo_end_within_due_slot:
  assumes "0 < swo_granularity_minutes cfg" and "tasks request = t # ts"
  shows "\<exists>r. swo_schedule cfg request = Inr r
           \<and> (\<forall>a \<in> set (assignments r). \<exists>t' \<in> set (tasks request). task_id t' = a_task_id a
                 \<and> to_slot (swo_indexer cfg t ts (meetings request)) (a_end a)
                     \<le> to_slot_ceiling (swo_indexer cfg t ts (meetings request)) (due t')
                 \<and> 0 \<le> tardiness_minutes a
                 \<and> tardiness_minutes a < swo_granularity_minutes cfg)"
proof -
  define ix where "ix = swo_indexer cfg t ts (meetings request)"
  have gi: "0 < granularity ix" using assms(1) by (simp add: ix_def swo_indexer_def)
  have gg: "granularity ix = swo_granularity_minutes cfg" by (simp add: ix_def swo_indexer_def)
  from swo_assignment_facts [OF assms]
  obtain r where r: "swo_schedule cfg request = Inr r"
    and f: "\<forall>a \<in> set (assignments r). \<exists>t' s. t' \<in> set (t # ts) \<and> task_id t' = a_task_id a
         \<and> a = build_assigned ix (make_info ix (horizon_slots_of ix t ts (meetings request))
                  (case previous_assignments request of None \<Rightarrow> [] | Some p \<Rightarrow> p) t') (a_task_id a) s
         \<and> slot_admissible (make_info ix (horizon_slots_of ix t ts (meetings request))
                  (case previous_assignments request of None \<Rightarrow> [] | Some p \<Rightarrow> p) t')
              (base_occupancy_of cfg ix (horizon_slots_of ix t ts (meetings request)) (meetings request)) s"
    unfolding ix_def by blast
  have "\<forall>a \<in> set (assignments r). \<exists>t' \<in> set (tasks request). task_id t' = a_task_id a
          \<and> to_slot ix (a_end a) \<le> to_slot_ceiling ix (due t')
          \<and> 0 \<le> tardiness_minutes a \<and> tardiness_minutes a < swo_granularity_minutes cfg"
  proof
    fix a assume "a \<in> set (assignments r)"
    with f obtain t' s info where a: "t' \<in> set (t # ts)" "task_id t' = a_task_id a"
      "info = make_info ix (horizon_slots_of ix t ts (meetings request))
                  (case previous_assignments request of None \<Rightarrow> [] | Some p \<Rightarrow> p) t'"
      "a = build_assigned ix info (a_task_id a) s"
      "slot_admissible info (base_occupancy_of cfg ix (horizon_slots_of ix t ts (meetings request))
          (meetings request)) s"
      by blast
    define e where "e = s + duration_slots info"
    have le: "e \<le> to_slot_ceiling ix (due t')"
      using a(5) a(3) by (simp add: slot_admissible_def e_def)
    have ae: "a_end a = to_datetime ix e" by (subst a(4)) (simp add: e_def)
    have c1: "to_slot ix (a_end a) \<le> to_slot_ceiling ix (due t')"
      using le by (simp add: ae to_slot_to_datetime [OF gi])
    have "to_datetime ix e \<le> to_datetime ix (to_slot_ceiling ix (due t'))"
      using le by (rule to_datetime_mono [OF gi])
    with to_datetime_ceiling_lt [OF gi, of "due t'"]
    have lt: "to_datetime ix e - due t' < granularity ix * MICROS_PER_MINUTE" by linarith
    have ti: "task info = t'" using a(3) by simp
    have tard: "tardiness_minutes a
        = (if to_datetime ix e > due t' then (to_datetime ix e - due t') div MICROS_PER_MINUTE else 0)"
      using ti by (subst a(4)) (simp add: build_assigned_tardiness e_def)
    have mp: "0 < MICROS_PER_MINUTE" by (simp add: MICROS_PER_MINUTE_def)
    have c2: "0 \<le> tardiness_minutes a"
      unfolding tard using mp by (simp add: pos_imp_zdiv_nonneg_iff)
    have c3: "tardiness_minutes a < swo_granularity_minutes cfg"
      unfolding tard using div_lt_slot [OF mp lt] assms(1) gg by simp
    show "\<exists>t' \<in> set (tasks request). task_id t' = a_task_id a
          \<and> to_slot ix (a_end a) \<le> to_slot_ceiling ix (due t')
          \<and> 0 \<le> tardiness_minutes a \<and> tardiness_minutes a < swo_granularity_minutes cfg"
      using a(1,2) c1 c2 c3 assms(2) by auto
  qed
  with r show ?thesis unfolding ix_def by blast
qed

theorem swo_end_within_due_slot_witness:
  "0 < swo_granularity_minutes default_swo
   \<and> tasks late_request = [plain_task ''a'' 60 (at_minute 540) (at_minute 590) 5]
   \<and> (\<exists>r. swo_schedule default_swo late_request = Inr r
          \<and> map tardiness_minutes (assignments r) = [10]
          \<and> (\<forall>a \<in> set (assignments r). 0 \<le> tardiness_minutes a \<and> tardiness_minutes a < 15))"
proof -
  have g: "0 < swo_granularity_minutes default_swo" by (simp add: default_swo_def)
  have ts: "tasks late_request = plain_task ''a'' 60 (at_minute 540) (at_minute 590) 5 # []"
    by (simp add: late_request_def)
  from swo_end_within_due_slot [OF g ts]
  obtain r where r: "swo_schedule default_swo late_request = Inr r"
    and p: "\<forall>a \<in> set (assignments r). 0 \<le> tardiness_minutes a
              \<and> tardiness_minutes a < swo_granularity_minutes default_swo"
    by blast
  have e: "swo_schedule default_swo late_request
      = Inr \<lparr>assignments = [\<lparr>a_task_id = ''a'', a_start = at_minute 540, a_end = at_minute 600,
                deviation_minutes = 0, tardiness_minutes = 10\<rparr>],
             unscheduled_tasks = [], objective_value = Some 0\<rparr>"
    by code_simp
  from r e have "map tardiness_minutes (assignments r) = [10]" by auto
  moreover from p have "\<forall>a \<in> set (assignments r). 0 \<le> tardiness_minutes a \<and> tardiness_minutes a < 15"
    by (simp add: default_swo_def)
  ultimately show ?thesis using g ts r by auto
qed

section \<open>The construction pass\<close>

lemma construct_loop_append:
  "construct_loop infos h (xs @ ys) st
   = (case construct_loop infos h xs st of Inl e \<Rightarrow> Inl e | Inr st' \<Rightarrow> construct_loop infos h ys st')"
  by (induction xs arbitrary: st) (auto split: sum.splits)

text \<open>
  The step of a construction pass for the \<open>i\<close>-th task of an order of the tasks: the state
  before it exists, and the step stores the smallest slot that fits or appends the task id
  to \<open>unscheduled\<close>.
\<close>

lemma construct_step_first_fit:
  assumes g: "0 < swo_granularity_minutes cfg" and ts: "tasks request = t # ts"
    and order: "set order = set (t # ts)" and i: "i < length order"
  defines "ix \<equiv> swo_indexer cfg t ts (meetings request)"
  defines "h \<equiv> horizon_slots_of ix t ts (meetings request)"
  defines "infos \<equiv> map_of (segment_info_items ix h
     (case previous_assignments request of None \<Rightarrow> [] | Some p \<Rightarrow> p) (t # ts))"
  defines "base_occ \<equiv> base_occupancy_of cfg ix h (meetings request)"
  shows "\<exists>occ assigned unscheduled info.
     construct_loop infos h (take i order) (base_occ, [], []) = Inr (occ, assigned, unscheduled)
     \<and> construct_loop infos h (take (Suc i) order) (base_occ, [], [])
         = construct_step infos h (order ! i) (occ, assigned, unscheduled)
     \<and> infos (task_id (order ! i)) = Some info
     \<and> ((\<exists>s occ'. earliest_slot info \<le> s \<and> s \<le> latest_start_slot info \<and> fits info occ s
            \<and> (\<forall>s'. earliest_slot info \<le> s' \<and> s' < s \<longrightarrow> \<not> fits info occ s')
            \<and> construct_step infos h (order ! i) (occ, assigned, unscheduled)
                = Inr (occ', AList.update (task_id (order ! i)) s assigned, unscheduled)
            \<and> length occ' = length occ
            \<and> (\<forall>k < length occ. occ' ! k
                  = (occ ! k \<or> (s \<le> int k \<and> int k < s + duration_slots info))))
         \<or> ((\<forall>s. earliest_slot info \<le> s \<and> s \<le> latest_start_slot info \<longrightarrow> \<not> fits info occ s)
            \<and> construct_step infos h (order ! i) (occ, assigned, unscheduled)
                = Inr (occ, assigned, unscheduled @ [task_id (order ! i)])))"
proof -
  let ?prev = "case previous_assignments request of None \<Rightarrow> [] | Some p \<Rightarrow> p"
  have gi: "0 < granularity ix" using g by (simp add: ix_def swo_indexer_def)
  have hl: "h = int (length base_occ)"
    using horizon_ge_10 [of ix t ts "meetings request"] by (simp add: base_occ_def h_def)
  have info_of: "\<And>tid info. infos tid = Some info \<Longrightarrow>
      0 \<le> earliest_slot info \<and> due_slot info \<le> h"
  proof -
    fix tid info assume "infos tid = Some info"
    from segment_info_items_lookup [OF this [unfolded infos_def]]
    obtain t' where t': "t' \<in> set (t # ts)" "info = make_info ix h ?prev t'" by blast
    have "base ix \<le> earliest_start t'"
      using base_start_le_task [OF g t'(1)] by (simp add: ix_def swo_indexer_def)
    moreover have "to_slot_ceiling ix (due t') + 10 \<le> h"
      unfolding h_def by (rule horizon_ge_due [OF gi t'(1)])
    ultimately show "0 \<le> earliest_slot info \<and> due_slot info \<le> h"
      using t'(2) to_slot_ceiling_nonneg [OF gi] by simp
  qed
  have dom: "dom infos = task_id ` set (t # ts)"
    unfolding infos_def by (rule segment_info_items_dom)
  have all: "\<forall>t' \<in> set (take i order). \<exists>info. infos (task_id t') = Some info \<and> 0 \<le> earliest_slot info"
  proof
    fix t' assume "t' \<in> set (take i order)"
    then have "t' \<in> set (t # ts)" using order by (auto dest: in_set_takeD)
    then have "task_id t' \<in> dom infos" using dom by blast
    then obtain info where "infos (task_id t') = Some info" by blast
    with info_of show "\<exists>info. infos (task_id t') = Some info \<and> 0 \<le> earliest_slot info" by blast
  qed
  have c: "\<forall>tid \<in> {}. tid \<in> set ([]::string list) \<or> map_of ([]::(string \<times> int) list) tid \<noteq> None"
    by simp
  from construct_loop_inv [OF placed_ok_init hl all c]
  obtain occ assigned unscheduled where
    pre: "construct_loop infos h (take i order) (base_occ, [], []) = Inr (occ, assigned, unscheduled)"
    and ok: "placed_ok infos base_occ occ assigned"
    by blast
  have len: "h = int (length occ)" using ok hl by (simp add: placed_ok_def)
  have suc: "construct_loop infos h (take (Suc i) order) (base_occ, [], [])
         = construct_step infos h (order ! i) (occ, assigned, unscheduled)"
    using i pre by (simp add: take_Suc_conv_app_nth construct_loop_append split: sum.splits)
  have "order ! i \<in> set (t # ts)" using order i nth_mem by blast
  then have "task_id (order ! i) \<in> dom infos" using dom by blast
  then obtain info where info: "infos (task_id (order ! i)) = Some info" by blast
  from info_of [OF info] have es: "0 \<le> earliest_slot info" and dh: "due_slot info \<le> h" by simp_all
  from find_slot_spec [OF es len]
  have "(\<exists>s occ'. earliest_slot info \<le> s \<and> s \<le> latest_start_slot info \<and> fits info occ s
            \<and> (\<forall>s'. earliest_slot info \<le> s' \<and> s' < s \<longrightarrow> \<not> fits info occ s')
            \<and> construct_step infos h (order ! i) (occ, assigned, unscheduled)
                = Inr (occ', AList.update (task_id (order ! i)) s assigned, unscheduled)
            \<and> length occ' = length occ
            \<and> (\<forall>k < length occ. occ' ! k
                  = (occ ! k \<or> (s \<le> int k \<and> int k < s + duration_slots info))))
         \<or> ((\<forall>s. earliest_slot info \<le> s \<and> s \<le> latest_start_slot info \<longrightarrow> \<not> fits info occ s)
            \<and> construct_step infos h (order ! i) (occ, assigned, unscheduled)
                = Inr (occ, assigned, unscheduled @ [task_id (order ! i)]))"
  proof
    assume "\<exists>s. find_slot info occ h = Inr (Some s)
            \<and> earliest_slot info \<le> s \<and> s \<le> latest_start_slot info
            \<and> s + duration_slots info \<le> h \<and> fits info occ s
            \<and> (\<forall>s'. earliest_slot info \<le> s' \<and> s' < s \<longrightarrow> \<not> fits info occ s')"
    then obtain s where s: "find_slot info occ h = Inr (Some s)"
      "earliest_slot info \<le> s" "s \<le> latest_start_slot info"
      "s + duration_slots info \<le> h" "fits info occ s"
      "\<forall>s'. earliest_slot info \<le> s' \<and> s' < s \<longrightarrow> \<not> fits info occ s'" by blast
    have s0: "0 \<le> s" using es s(2) by simp
    have e: "s + duration_slots info \<le> int (length occ)" using s(4) len by simp
    from mark_occupied_spec [OF s0 e]
    obtain occ' where o: "mark_occupied occ s (s + duration_slots info) = Inr occ'"
      "length occ' = length occ"
      "\<forall>k < length occ. occ' ! k = (occ ! k \<or> (s \<le> int k \<and> int k < s + duration_slots info))"
      by blast
    have "construct_step infos h (order ! i) (occ, assigned, unscheduled)
                = Inr (occ', AList.update (task_id (order ! i)) s assigned, unscheduled)"
      by (simp add: construct_step_def info s(1) o(1))
    with s o show ?thesis by blast
  next
    assume n: "find_slot info occ h = Inr None
            \<and> (\<forall>s'. earliest_slot info \<le> s' \<and> s' \<le> latest_start_slot info
                    \<and> s' + duration_slots info \<le> h \<longrightarrow> \<not> fits info occ s')"
    have "\<forall>s. earliest_slot info \<le> s \<and> s \<le> latest_start_slot info \<longrightarrow> \<not> fits info occ s"
    proof (intro allI impI)
      fix s assume r: "earliest_slot info \<le> s \<and> s \<le> latest_start_slot info"
      show "\<not> fits info occ s"
      proof (cases "s + duration_slots info \<le> h")
        case True
        with n r show ?thesis by blast
      next
        case False
        with dh show ?thesis by (simp add: fits_def)
      qed
    qed
    moreover have "construct_step infos h (order ! i) (occ, assigned, unscheduled)
                = Inr (occ, assigned, unscheduled @ [task_id (order ! i)])"
      using n by (simp add: construct_step_def info)
    ultimately show ?thesis by blast
  qed
  with pre suc info show ?thesis by blast
qed

text \<open>
  Claim C6. In a construction pass \<^verbatim>\<open>_construct_schedule\<close> of \<^verbatim>\<open>schedule\<close> over any
  order of the tasks, the pass over the tasks before the \<open>i\<close>-th returns, and the pass that
  also takes the \<open>i\<close>-th task either stores for it the smallest slot of
  \<open>[earliest_slot, latest_start_slot]\<close> that fits (it ends by the due slot and all its slots
  are free), marking exactly the slots of the segment as occupied, or no slot of that range
  fits, the task id is appended to \<open>unscheduled\<close> and the occupancy list is unchanged. A
  slot that fits lies inside the occupancy list, since the due slot is below the horizon.
  The pass over the whole order returns, and every task of the order is assigned a slot or
  is unscheduled.
\<close>

theorem construction_pass_first_fit:
  assumes g: "0 < swo_granularity_minutes cfg" and ts: "tasks request = t # ts"
    and order: "set order = set (t # ts)" and i: "i < length order"
  defines "ix \<equiv> swo_indexer cfg t ts (meetings request)"
  defines "h \<equiv> horizon_slots_of ix t ts (meetings request)"
  defines "infos \<equiv> map_of (segment_info_items ix h
     (case previous_assignments request of None \<Rightarrow> [] | Some p \<Rightarrow> p) (t # ts))"
  defines "base_occ \<equiv> base_occupancy_of cfg ix h (meetings request)"
  shows "(\<exists>occ assigned unscheduled info.
     construct_loop infos h (take i order) (base_occ, [], []) = Inr (occ, assigned, unscheduled)
     \<and> construct_schedule (take i order) infos base_occ h = Inr (assigned, unscheduled)
     \<and> construct_loop infos h (take (Suc i) order) (base_occ, [], [])
         = construct_step infos h (order ! i) (occ, assigned, unscheduled)
     \<and> infos (task_id (order ! i)) = Some info
     \<and> ((\<exists>s occ'. earliest_slot info \<le> s \<and> s \<le> latest_start_slot info \<and> fits info occ s
            \<and> (\<forall>s'. earliest_slot info \<le> s' \<and> s' < s \<longrightarrow> \<not> fits info occ s')
            \<and> construct_step infos h (order ! i) (occ, assigned, unscheduled)
                = Inr (occ', AList.update (task_id (order ! i)) s assigned, unscheduled)
            \<and> construct_schedule (take (Suc i) order) infos base_occ h
                = Inr (AList.update (task_id (order ! i)) s assigned, unscheduled)
            \<and> length occ' = length occ
            \<and> (\<forall>k < length occ. occ' ! k
                  = (occ ! k \<or> (s \<le> int k \<and> int k < s + duration_slots info))))
         \<or> ((\<forall>s. earliest_slot info \<le> s \<and> s \<le> latest_start_slot info \<longrightarrow> \<not> fits info occ s)
            \<and> construct_step infos h (order ! i) (occ, assigned, unscheduled)
                = Inr (occ, assigned, unscheduled @ [task_id (order ! i)])
            \<and> construct_schedule (take (Suc i) order) infos base_occ h
                = Inr (assigned, unscheduled @ [task_id (order ! i)]))))
   \<and> (\<exists>assigned unscheduled.
         construct_schedule order infos base_occ h = Inr (assigned, unscheduled)
         \<and> (\<forall>t' \<in> set order. task_id t' \<in> set unscheduled
                \<or> map_of assigned (task_id t') \<noteq> None))"
proof
  let ?prev = "case previous_assignments request of None \<Rightarrow> [] | Some p \<Rightarrow> p"
  from construct_step_first_fit [OF g ts order i]
  obtain occ assigned unscheduled info where
    pre: "construct_loop infos h (take i order) (base_occ, [], []) = Inr (occ, assigned, unscheduled)"
    and suc: "construct_loop infos h (take (Suc i) order) (base_occ, [], [])
         = construct_step infos h (order ! i) (occ, assigned, unscheduled)"
    and info: "infos (task_id (order ! i)) = Some info"
    and d: "(\<exists>s occ'. earliest_slot info \<le> s \<and> s \<le> latest_start_slot info \<and> fits info occ s
            \<and> (\<forall>s'. earliest_slot info \<le> s' \<and> s' < s \<longrightarrow> \<not> fits info occ s')
            \<and> construct_step infos h (order ! i) (occ, assigned, unscheduled)
                = Inr (occ', AList.update (task_id (order ! i)) s assigned, unscheduled)
            \<and> length occ' = length occ
            \<and> (\<forall>k < length occ. occ' ! k
                  = (occ ! k \<or> (s \<le> int k \<and> int k < s + duration_slots info))))
         \<or> ((\<forall>s. earliest_slot info \<le> s \<and> s \<le> latest_start_slot info \<longrightarrow> \<not> fits info occ s)
            \<and> construct_step infos h (order ! i) (occ, assigned, unscheduled)
                = Inr (occ, assigned, unscheduled @ [task_id (order ! i)]))"
    unfolding ix_def h_def infos_def base_occ_def by blast
  have cs: "construct_schedule (take i order) infos base_occ h = Inr (assigned, unscheduled)"
    by (simp add: construct_schedule_def pre)
  have cs': "construct_schedule (take (Suc i) order) infos base_occ h = Inr (a', u')"
    if "construct_step infos h (order ! i) (occ, assigned, unscheduled) = Inr (occ', a', u')"
    for occ' a' u'
    using that by (simp add: construct_schedule_def suc)
  from d have "(\<exists>s occ'. earliest_slot info \<le> s \<and> s \<le> latest_start_slot info \<and> fits info occ s
            \<and> (\<forall>s'. earliest_slot info \<le> s' \<and> s' < s \<longrightarrow> \<not> fits info occ s')
            \<and> construct_step infos h (order ! i) (occ, assigned, unscheduled)
                = Inr (occ', AList.update (task_id (order ! i)) s assigned, unscheduled)
            \<and> construct_schedule (take (Suc i) order) infos base_occ h
                = Inr (AList.update (task_id (order ! i)) s assigned, unscheduled)
            \<and> length occ' = length occ
            \<and> (\<forall>k < length occ. occ' ! k
                  = (occ ! k \<or> (s \<le> int k \<and> int k < s + duration_slots info))))
         \<or> ((\<forall>s. earliest_slot info \<le> s \<and> s \<le> latest_start_slot info \<longrightarrow> \<not> fits info occ s)
            \<and> construct_step infos h (order ! i) (occ, assigned, unscheduled)
                = Inr (occ, assigned, unscheduled @ [task_id (order ! i)])
            \<and> construct_schedule (take (Suc i) order) infos base_occ h
                = Inr (assigned, unscheduled @ [task_id (order ! i)]))"
  proof
    assume "\<exists>s occ'. earliest_slot info \<le> s \<and> s \<le> latest_start_slot info \<and> fits info occ s
            \<and> (\<forall>s'. earliest_slot info \<le> s' \<and> s' < s \<longrightarrow> \<not> fits info occ s')
            \<and> construct_step infos h (order ! i) (occ, assigned, unscheduled)
                = Inr (occ', AList.update (task_id (order ! i)) s assigned, unscheduled)
            \<and> length occ' = length occ
            \<and> (\<forall>k < length occ. occ' ! k
                  = (occ ! k \<or> (s \<le> int k \<and> int k < s + duration_slots info)))"
    then obtain s occ' where s: "earliest_slot info \<le> s" "s \<le> latest_start_slot info"
      "fits info occ s" "\<forall>s'. earliest_slot info \<le> s' \<and> s' < s \<longrightarrow> \<not> fits info occ s'"
      "construct_step infos h (order ! i) (occ, assigned, unscheduled)
                = Inr (occ', AList.update (task_id (order ! i)) s assigned, unscheduled)"
      "length occ' = length occ"
      "\<forall>k < length occ. occ' ! k
                  = (occ ! k \<or> (s \<le> int k \<and> int k < s + duration_slots info))"
      by blast
    from cs' [OF s(5)] s show ?thesis by blast
  next
    assume n: "(\<forall>s. earliest_slot info \<le> s \<and> s \<le> latest_start_slot info \<longrightarrow> \<not> fits info occ s)
            \<and> construct_step infos h (order ! i) (occ, assigned, unscheduled)
                = Inr (occ, assigned, unscheduled @ [task_id (order ! i)])"
    then have "construct_schedule (take (Suc i) order) infos base_occ h
                = Inr (assigned, unscheduled @ [task_id (order ! i)])"
      by (intro cs') simp
    with n show ?thesis by blast
  qed
  with pre cs suc info
  show "\<exists>occ assigned unscheduled info.
     construct_loop infos h (take i order) (base_occ, [], []) = Inr (occ, assigned, unscheduled)
     \<and> construct_schedule (take i order) infos base_occ h = Inr (assigned, unscheduled)
     \<and> construct_loop infos h (take (Suc i) order) (base_occ, [], [])
         = construct_step infos h (order ! i) (occ, assigned, unscheduled)
     \<and> infos (task_id (order ! i)) = Some info
     \<and> ((\<exists>s occ'. earliest_slot info \<le> s \<and> s \<le> latest_start_slot info \<and> fits info occ s
            \<and> (\<forall>s'. earliest_slot info \<le> s' \<and> s' < s \<longrightarrow> \<not> fits info occ s')
            \<and> construct_step infos h (order ! i) (occ, assigned, unscheduled)
                = Inr (occ', AList.update (task_id (order ! i)) s assigned, unscheduled)
            \<and> construct_schedule (take (Suc i) order) infos base_occ h
                = Inr (AList.update (task_id (order ! i)) s assigned, unscheduled)
            \<and> length occ' = length occ
            \<and> (\<forall>k < length occ. occ' ! k
                  = (occ ! k \<or> (s \<le> int k \<and> int k < s + duration_slots info))))
         \<or> ((\<forall>s. earliest_slot info \<le> s \<and> s \<le> latest_start_slot info \<longrightarrow> \<not> fits info occ s)
            \<and> construct_step infos h (order ! i) (occ, assigned, unscheduled)
                = Inr (occ, assigned, unscheduled @ [task_id (order ! i)])
            \<and> construct_schedule (take (Suc i) order) infos base_occ h
                = Inr (assigned, unscheduled @ [task_id (order ! i)])))"
    by blast
next
  let ?prev = "case previous_assignments request of None \<Rightarrow> [] | Some p \<Rightarrow> p"
  have gi: "0 < granularity ix" using g by (simp add: ix_def swo_indexer_def)
  have hl: "h = int (length base_occ)"
    using horizon_ge_10 [of ix t ts "meetings request"] by (simp add: base_occ_def h_def)
  have dom: "dom infos = task_id ` set (t # ts)"
    unfolding infos_def by (rule segment_info_items_dom)
  have all: "\<forall>t' \<in> set order. \<exists>info. infos (task_id t') = Some info \<and> 0 \<le> earliest_slot info"
  proof
    fix t' assume "t' \<in> set order"
    then have "t' \<in> set (t # ts)" using order by simp
    then have "task_id t' \<in> dom infos" using dom by blast
    then obtain info where info: "infos (task_id t') = Some info" by blast
    from segment_info_items_lookup [OF this [unfolded infos_def]]
    obtain t'' where t'': "t'' \<in> set (t # ts)" "info = make_info ix h ?prev t''" by blast
    have "base ix \<le> earliest_start t''"
      using base_start_le_task [OF g t''(1)] by (simp add: ix_def swo_indexer_def)
    then have "0 \<le> earliest_slot info"
      using t''(2) to_slot_ceiling_nonneg [OF gi] by simp
    with info show "\<exists>info. infos (task_id t') = Some info \<and> 0 \<le> earliest_slot info" by blast
  qed
  from construct_schedule_inv [OF hl all]
  show "\<exists>assigned unscheduled.
         construct_schedule order infos base_occ h = Inr (assigned, unscheduled)
         \<and> (\<forall>t' \<in> set order. task_id t' \<in> set unscheduled
                \<or> map_of assigned (task_id t') \<noteq> None)"
    by blast
qed

theorem construction_pass_first_fit_witness:
  "0 < swo_granularity_minutes default_swo
   \<and> tasks meeting_request = [task_a, task_b]
   \<and> set [task_b, task_a] = set [task_a, task_b]
   \<and> (1::nat) < length [task_b, task_a]
   \<and> (\<exists>occ occ'.
         construct_loop meeting_infos meeting_h (take 1 [task_b, task_a]) (meeting_base_occ, [], [])
           = Inr (occ, [(''b'', 0)], [])
         \<and> construct_step meeting_infos meeting_h ([task_b, task_a] ! 1) (occ, [(''b'', 0)], [])
           = Inr (occ', [(''b'', 0), (''a'', 8)], []))
   \<and> construct_schedule (take 1 [task_b, task_a]) meeting_infos meeting_base_occ meeting_h
       = Inr ([(''b'', 0)], [])
   \<and> construct_schedule (take (Suc 1) [task_b, task_a]) meeting_infos meeting_base_occ meeting_h
       = Inr (AList.update ''a'' 8 [(''b'', 0)], [])
   \<and> construct_schedule [task_b, task_a] meeting_infos meeting_base_occ meeting_h
       = Inr ([(''b'', 0), (''a'', 8)], [])"
proof -
  have g: "0 < swo_granularity_minutes default_swo" by (simp add: default_swo_def)
  have ts: "tasks meeting_request = task_a # [task_b]" by (simp add: meeting_request_def)
  have o: "set [task_b, task_a] = set (task_a # [task_b])" by auto
  have i: "(1::nat) < length [task_b, task_a]" by simp
  from conjunct1 [OF construction_pass_first_fit [OF g ts o i]]
  obtain occ assigned unscheduled where
    pre: "construct_loop meeting_infos meeting_h (take 1 [task_b, task_a]) (meeting_base_occ, [], [])
            = Inr (occ, assigned, unscheduled)"
    and cs: "construct_schedule (take 1 [task_b, task_a]) meeting_infos meeting_base_occ meeting_h
            = Inr (assigned, unscheduled)"
    and suc: "construct_loop meeting_infos meeting_h (take (Suc 1) [task_b, task_a]) (meeting_base_occ, [], [])
            = construct_step meeting_infos meeting_h ([task_b, task_a] ! 1) (occ, assigned, unscheduled)"
    unfolding meeting_infos_def meeting_h_def meeting_ix_def meeting_base_occ_def by blast
  have e1: "construct_schedule [task_b] meeting_infos meeting_base_occ meeting_h
            = Inr ([(''b'', 0)], [])"
    by code_simp
  have e2: "construct_schedule [task_b, task_a] meeting_infos meeting_base_occ meeting_h
            = Inr ([(''b'', 0), (''a'', 8)], [])"
    by code_simp
  from cs e1 have a: "assigned = [(''b'', 0)]" "unscheduled = []"
    by simp_all
  from e2 obtain occ' where
    "construct_loop meeting_infos meeting_h [task_b, task_a] (meeting_base_occ, [], [])
       = Inr (occ', [(''b'', 0), (''a'', 8)], [])"
    by (auto simp: construct_schedule_def split: sum.splits)
  with suc have st: "construct_step meeting_infos meeting_h ([task_b, task_a] ! 1) (occ, assigned, unscheduled)
       = Inr (occ', [(''b'', 0), (''a'', 8)], [])"
    by (simp add: numeral_2_eq_2)
  have "\<exists>occ occ'.
         construct_loop meeting_infos meeting_h (take 1 [task_b, task_a]) (meeting_base_occ, [], [])
           = Inr (occ, [(''b'', 0)], [])
         \<and> construct_step meeting_infos meeting_h ([task_b, task_a] ! 1) (occ, [(''b'', 0)], [])
           = Inr (occ', [(''b'', 0), (''a'', 8)], [])"
    using pre st a by blast
  moreover have "construct_schedule (take 1 [task_b, task_a]) meeting_infos meeting_base_occ meeting_h
       = Inr ([(''b'', 0)], [])" using cs a by simp
  moreover have "construct_schedule (take (Suc 1) [task_b, task_a]) meeting_infos meeting_base_occ meeting_h
       = Inr (AList.update ''a'' 8 [(''b'', 0)], [])" using e2 by simp
  ultimately show ?thesis using g ts o i e2 by blast
qed

lemma map_of_rev_distinct:
  assumes "distinct (map fst xs)"
  shows "map_of (rev xs) = map_of xs"
proof
  fix k
  have d: "distinct (map fst (rev xs))" using assms by (simp add: rev_map [symmetric])
  show "map_of (rev xs) k = map_of xs k"
  proof (cases "map_of xs k")
    case None
    then have "k \<notin> fst ` set xs" by (simp add: map_of_eq_None_iff)
    then have "map_of (rev xs) k = None" by (simp add: map_of_eq_None_iff)
    with None show ?thesis by simp
  next
    case (Some v)
    then have "(k, v) \<in> set (rev xs)" using assms by (auto dest: map_of_SomeD)
    with d have "map_of (rev xs) k = Some v" by (simp only: map_of_eq_Some_iff)
    with Some show ?thesis by simp
  qed
qed

lemma vars_of_pair:
  assumes "distinct (map task_id ts)" and "length sol = length ts" and "(t, v) \<in> set (zip ts sol)"
  shows "vars_of ts sol (task_id t) = Some v"
proof -
  have d: "distinct (map fst (zip (map task_id ts) sol))"
    using assms(1,2) by (simp add: map_fst_zip)
  have "(task_id t, v) \<in> set (zip (map task_id ts) sol)"
    using assms(3) by (auto simp: zip_map1)
  with d have "map_of (zip (map task_id ts) sol) (task_id t) = Some v" by simp
  then show ?thesis by (simp add: vars_of_def map_of_rev_distinct [OF d])
qed

lemma decode_zip:
  "length ts = length sol \<Longrightarrow>
   \<forall>p \<in> set (zip ts sol). vars (task_id (fst p)) = Some (snd p) \<Longrightarrow>
   decode ix vars ts
     = Inr (decoded_assigned ix (zip ts sol), decoded_unscheduled (zip ts sol))"
proof (induction ts sol rule: list_induct2)
  case Nil
  then show ?case by (simp add: decoded_assigned_def decoded_unscheduled_def)
next
  case (Cons t ts v sol)
  have tv: "vars (task_id t) = Some v" using Cons.prems by simp
  have "decode ix vars ts
     = Inr (decoded_assigned ix (zip ts sol), decoded_unscheduled (zip ts sol))"
    using Cons by simp
  then show ?case
    by (simp add: tv decoded_assigned_def decoded_unscheduled_def decoded_task_def)
qed

lemma replace_hour_ok: "0 \<le> h \<Longrightarrow> h \<le> 23 \<Longrightarrow> replace_hour d h = Inr (d + h * MICROS_PER_HOUR)"
  by (simp add: replace_hour_def)

lemma day_blocks_total:
  "0 \<le> ws \<Longrightarrow> ws \<le> 23 \<Longrightarrow> 0 \<le> we \<Longrightarrow> we \<le> 23 \<Longrightarrow>
   \<exists>bs. day_blocks ix h ws we horizon_end current_day = Inr bs"
proof (induction ix h ws we horizon_end current_day rule: day_blocks.induct)
  case (1 ix h ws we horizon_end current_day)
  show ?case
  proof (cases "current_day < horizon_end")
    case False
    then show ?thesis by (subst day_blocks.simps) simp
  next
    case True
    note rs = replace_hour_ok [OF "1.prems"(1,2), of current_day]
    note re = replace_hour_ok [OF "1.prems"(3,4), of current_day]
    from "1.IH" [OF True rs re refl] "1.prems"
    obtain bs where "day_blocks ix h ws we horizon_end (current_day + MICROS_PER_DAY) = Inr bs"
      by blast
    then show ?thesis using True
      by (subst day_blocks.simps) (simp add: rs re Let_def)
  qed
qed

lemma working_blocks_total:
  "cp_hours_ok cfg \<Longrightarrow> \<exists>bs. working_blocks cfg ix h = Inr bs"
proof -
  assume ok: "cp_hours_ok cfg"
  show ?thesis
  proof (cases "cp_working_day_start_hour cfg > 0 \<or> cp_working_day_end_hour cfg < 24")
    case False
    then show ?thesis by (simp add: working_blocks_def)
  next
    case True
    with ok have "0 \<le> cp_working_day_start_hour cfg" "cp_working_day_start_hour cfg \<le> 23"
      "0 \<le> cp_working_day_end_hour cfg" "cp_working_day_end_hour cfg \<le> 23"
      by (auto simp: cp_hours_ok_def)
    from day_blocks_total [OF this] True show ?thesis
      by (simp add: working_blocks_def Let_def)
  qed
qed

text \<open>
  What \<^verbatim>\<open>schedule\<close> returns when the solver reports a solution, and the constraints
  that the solution then satisfies.
\<close>

lemma cp_schedule_solved:
  assumes g: "cp_granularity_minutes cfg \<noteq> 0" and ts: "tasks request = t # ts"
    and ids: "distinct (map task_id (tasks request))"
    and sound: "solver_sound cfg request (status, sol)"
    and st: "status = OPTIMAL \<or> status = FEASIBLE"
    and b: "working_blocks cfg (cp_indexer cfg t ts (meetings request))
              (horizon_slots_of (cp_indexer cfg t ts (meetings request)) t ts (meetings request))
            = Inr blocks"
  defines "ix \<equiv> cp_indexer cfg t ts (meetings request)"
  defines "h \<equiv> horizon_slots_of ix t ts (meetings request)"
  shows "cp_model_holds ix h request blocks sol
           \<and> cp_schedule cfg request (status, sol)
              = Inr \<lparr>assignments = sort_key a_start (decoded_assigned ix (zip (t # ts) sol)),
                     unscheduled_tasks = decoded_unscheduled (zip (t # ts) sol),
                     objective_value = (if status = OPTIMAL
                        then Some (cp_objective cfg (t # ts) (vars_of (t # ts) sol)) else None)\<rparr>"
proof -
  have b': "working_blocks cfg ix h = Inr blocks" using b by (simp add: ix_def h_def)
  have holds: "cp_model_holds ix h request blocks sol"
    using sound st b' by (simp add: solver_sound_def ts Let_def ix_def [symmetric] h_def [symmetric])
  then have len: "length (t # ts) = length sol"
    by (simp add: cp_model_holds_def Let_def ts)
  have "\<forall>p \<in> set (zip (t # ts) sol). vars_of (t # ts) sol (task_id (fst p)) = Some (snd p)"
  proof
    fix p assume "p \<in> set (zip (t # ts) sol)"
    then have "(fst p, snd p) \<in> set (zip (t # ts) sol)" by simp
    from vars_of_pair [OF _ _ this] ids len show "vars_of (t # ts) sol (task_id (fst p)) = Some (snd p)"
      by (simp add: ts)
  qed
  from decode_zip [OF len this]
  have d: "decode ix (vars_of (t # ts) sol) (t # ts)
     = Inr (decoded_assigned ix (zip (t # ts) sol), decoded_unscheduled (zip (t # ts) sol))" .
  have "cp_schedule cfg request (status, sol)
              = Inr \<lparr>assignments = sort_key a_start (decoded_assigned ix (zip (t # ts) sol)),
                     unscheduled_tasks = decoded_unscheduled (zip (t # ts) sol),
                     objective_value = (if status = OPTIMAL
                        then Some (cp_objective cfg (t # ts) (vars_of (t # ts) sol)) else None)\<rparr>"
    using g st b' d
    by (auto simp add: cp_schedule_def ts Let_def ix_def [symmetric] h_def [symmetric]
        simp del: decode.simps)
  with holds show ?thesis by blast
qed

lemma cp_schedule_returns:
  assumes "tasks request = t # ts" and "cp_schedule cfg request outcome = Inr r"
  shows "cp_granularity_minutes cfg \<noteq> 0
         \<and> (\<exists>blocks. working_blocks cfg (cp_indexer cfg t ts (meetings request))
              (horizon_slots_of (cp_indexer cfg t ts (meetings request)) t ts (meetings request))
            = Inr blocks)"
  using assms by (auto simp: cp_schedule_def Let_def split: if_splits sum.splits)

lemma cp_schedule_unsolved:
  assumes g: "cp_granularity_minutes cfg \<noteq> 0" and ts: "tasks request = t # ts"
    and st: "status \<noteq> OPTIMAL \<and> status \<noteq> FEASIBLE"
    and b: "working_blocks cfg (cp_indexer cfg t ts (meetings request))
              (horizon_slots_of (cp_indexer cfg t ts (meetings request)) t ts (meetings request))
            = Inr blocks"
  shows "cp_schedule cfg request (status, sol)
         = Inr \<lparr>assignments = [], unscheduled_tasks = map task_id (t # ts), objective_value = None\<rparr>"
  using g st b by (simp add: cp_schedule_def ts Let_def)

lemma sorted_wrt_pairwise_disjoint:
  "sorted_wrt non_overlapping xs \<Longrightarrow> pairwise_disjoint xs"
  unfolding pairwise_disjoint_def sorted_wrt_iff_nth_less non_overlapping_def
  by (intro allI impI) (elim conjE allE impE, assumption, assumption, auto)

lemma decoded_non_overlapping:
  assumes g: "0 < granularity ix" and len: "length ts = length sol"
    and no: "sorted_wrt disjoint_intervals (model_intervals ix ms blocks sol)"
  shows "sorted_wrt non_overlapping (decoded_assigned ix (zip ts sol))"
proof -
  let ?iv = "\<lambda>v. (v_start v, v_end v, v_present v)"
  let ?R = "\<lambda>p q. disjoint_intervals (?iv (snd p)) (?iv (snd q))"
  have "sorted_wrt disjoint_intervals (map ?iv sol)"
    using no by (simp add: model_intervals_def sorted_wrt_append)
  moreover have "map (\<lambda>p. ?iv (snd p)) (zip ts sol) = map ?iv (map snd (zip ts sol))"
    by (simp add: o_def)
  moreover have "map snd (zip ts sol) = sol" using len by (simp add: map_snd_zip)
  ultimately have "sorted_wrt disjoint_intervals (map (\<lambda>p. ?iv (snd p)) (zip ts sol))"
    by simp
  then have "sorted_wrt ?R (zip ts sol)" by (simp add: sorted_wrt_map)
  then have f: "sorted_wrt ?R (filter (\<lambda>p. v_present (snd p)) (zip ts sol))"
    by (rule sorted_wrt_filter)
  have "sorted_wrt (\<lambda>p q. v_end (snd p) \<le> v_start (snd q) \<or> v_end (snd q) \<le> v_start (snd p))
          (filter (\<lambda>p. v_present (snd p)) (zip ts sol))"
    by (rule sorted_wrt_mono_rel [OF _ f]) (auto simp: disjoint_intervals_def)
  then have "sorted_wrt (\<lambda>p q. to_datetime ix (v_end (snd p)) \<le> to_datetime ix (v_start (snd q))
                \<or> to_datetime ix (v_end (snd q)) \<le> to_datetime ix (v_start (snd p)))
          (filter (\<lambda>p. v_present (snd p)) (zip ts sol))"
    by (rule sorted_wrt_mono_rel [rotated]) (auto intro: to_datetime_mono [OF g])
  then show ?thesis
    by (simp add: decoded_assigned_def decoded_task_def sorted_wrt_map non_overlapping_def)
qed

lemma cp_indexer_fields [simp]:
  "granularity (cp_indexer cfg t ts ms) = cp_granularity_minutes cfg"
  "base (cp_indexer cfg t ts ms) = base_start_of (cp_granularity_minutes cfg) t ts ms"
  by (simp_all add: cp_indexer_def)

lemma non_overlapping_sym: "non_overlapping a b \<Longrightarrow> non_overlapping b a"
  by (auto simp: non_overlapping_def)

lemma cp_result_non_overlapping:
  assumes g: "0 < cp_granularity_minutes cfg"
    and ids: "distinct (map task_id (tasks request))"
    and sound: "solver_sound cfg request outcome"
    and r: "cp_schedule cfg request outcome = Inr r"
  shows "sorted_wrt non_overlapping (assignments r)"
proof (cases "tasks request")
  case Nil
  with r show ?thesis by (auto simp: cp_schedule_def)
next
  case (Cons t ts)
  obtain status sol where o: "outcome = (status, sol)" by (cases outcome)
  define ix where "ix = cp_indexer cfg t ts (meetings request)"
  define h where "h = horizon_slots_of ix t ts (meetings request)"
  from cp_schedule_returns [OF Cons r] obtain blocks where
    b: "working_blocks cfg (cp_indexer cfg t ts (meetings request))
              (horizon_slots_of (cp_indexer cfg t ts (meetings request)) t ts (meetings request))
            = Inr blocks" by blast
  have g0: "cp_granularity_minutes cfg \<noteq> 0" using g by simp
  show ?thesis
  proof (cases "status = OPTIMAL \<or> status = FEASIBLE")
    case False
    then have "status \<noteq> OPTIMAL \<and> status \<noteq> FEASIBLE" by simp
    from cp_schedule_unsolved [OF g0 Cons this b, of sol] r o
    have "assignments r = []" by auto
    then show ?thesis by simp
  next
    case True
    from cp_schedule_solved [OF g0 Cons ids sound [unfolded o] True b]
    have holds: "cp_model_holds ix h request blocks sol"
      and res: "cp_schedule cfg request (status, sol)
              = Inr \<lparr>assignments = sort_key a_start (decoded_assigned ix (zip (t # ts) sol)),
                     unscheduled_tasks = decoded_unscheduled (zip (t # ts) sol),
                     objective_value = (if status = OPTIMAL
                        then Some (cp_objective cfg (t # ts) (vars_of (t # ts) sol)) else None)\<rparr>"
      by (simp_all add: ix_def h_def)
    have len: "length (t # ts) = length sol"
      using holds by (simp add: cp_model_holds_def Let_def Cons)
    have no: "sorted_wrt disjoint_intervals (model_intervals ix (meetings request) blocks sol)"
      using holds by (simp add: cp_model_holds_def Let_def)
    have gi: "0 < granularity ix" using g by (simp add: ix_def)
    have sw: "sorted_wrt non_overlapping (decoded_assigned ix (zip (t # ts) sol))"
      by (rule decoded_non_overlapping [OF gi len no])
    have sym: "\<And>a b. non_overlapping a b \<Longrightarrow> non_overlapping b a"
      by (rule non_overlapping_sym)
    have "sorted_wrt non_overlapping (sort_key a_start (decoded_assigned ix (zip (t # ts) sol)))"
      using sorted_wrt_sort_key_sym [OF sym sw] by simp
    moreover have "assignments r = sort_key a_start (decoded_assigned ix (zip (t # ts) sol))"
      using res r o by auto
    ultimately show ?thesis by simp
  qed
qed

lemma cp_schedule_total:
  assumes g: "cp_granularity_minutes cfg \<noteq> 0" and hours: "cp_hours_ok cfg"
    and ids: "distinct (map task_id (tasks request))"
    and sound: "solver_sound cfg request outcome"
  shows "\<exists>r. cp_schedule cfg request outcome = Inr r"
proof (cases "tasks request")
  case Nil
  then show ?thesis by (simp add: cp_schedule_def)
next
  case (Cons t ts)
  obtain status sol where o: "outcome = (status, sol)" by (cases outcome)
  from working_blocks_total [OF hours] obtain blocks where
    b: "working_blocks cfg (cp_indexer cfg t ts (meetings request))
              (horizon_slots_of (cp_indexer cfg t ts (meetings request)) t ts (meetings request))
            = Inr blocks" by blast
  show ?thesis
  proof (cases "status = OPTIMAL \<or> status = FEASIBLE")
    case False
    then have "status \<noteq> OPTIMAL \<and> status \<noteq> FEASIBLE" by simp
    from cp_schedule_unsolved [OF g Cons this b, of sol] o show ?thesis by simp
  next
    case True
    from cp_schedule_solved [OF g Cons ids sound [unfolded o] True b] o show ?thesis by simp
  qed
qed

lemma swo_result_non_overlapping:
  assumes g: "0 < swo_granularity_minutes cfg"
  shows "\<exists>r. swo_schedule cfg request = Inr r \<and> sorted_wrt non_overlapping (assignments r)"
proof (cases "tasks request")
  case Nil
  then show ?thesis by (simp add: swo_schedule_def)
next
  case (Cons t ts)
  from swo_assignment_facts [OF g Cons] show ?thesis by blast
qed

text \<open>
  Claim C1. The intervals \<open>[start, end)\<close> of the assignments of one result are pairwise
  disjoint. The squeaky-wheel scheduler returns such a result for every request when its
  granularity is positive. For the constraint scheduler the request has pairwise different
  task ids and the solver keeps its contract: then every result that \<^verbatim>\<open>schedule\<close>
  returns has pairwise disjoint intervals, and \<^verbatim>\<open>schedule\<close> does return one when
  the working hours can be written as clock hours.
\<close>

theorem assignments_pairwise_disjoint:
  "(0 < swo_granularity_minutes swo \<longrightarrow>
      (\<exists>r. swo_schedule swo request = Inr r \<and> pairwise_disjoint (assignments r)))
   \<and> (0 < cp_granularity_minutes cp \<and> distinct (map task_id (tasks request))
        \<and> solver_sound cp request outcome \<longrightarrow>
      (\<forall>r. cp_schedule cp request outcome = Inr r \<longrightarrow> pairwise_disjoint (assignments r))
      \<and> (cp_hours_ok cp \<longrightarrow> (\<exists>r. cp_schedule cp request outcome = Inr r)))"
proof (intro conjI impI allI)
  assume "0 < swo_granularity_minutes swo"
  from swo_result_non_overlapping [OF this, of request]
  show "\<exists>r. swo_schedule swo request = Inr r \<and> pairwise_disjoint (assignments r)"
    by (blast intro: sorted_wrt_pairwise_disjoint)
next
  fix r
  assume a: "0 < cp_granularity_minutes cp \<and> distinct (map task_id (tasks request))
        \<and> solver_sound cp request outcome"
    and r: "cp_schedule cp request outcome = Inr r"
  from a r have "sorted_wrt non_overlapping (assignments r)"
    by (intro cp_result_non_overlapping [of cp request outcome r]) simp_all
  then show "pairwise_disjoint (assignments r)" by (rule sorted_wrt_pairwise_disjoint)
next
  assume a: "0 < cp_granularity_minutes cp \<and> distinct (map task_id (tasks request))
        \<and> solver_sound cp request outcome"
    and h: "cp_hours_ok cp"
  from a h show "\<exists>r. cp_schedule cp request outcome = Inr r"
    by (intro cp_schedule_total) simp_all
qed

theorem assignments_pairwise_disjoint_witness:
  "(\<exists>r. swo_schedule default_swo meeting_request = Inr r
        \<and> map a_task_id (assignments r) = [''b'', ''a'']
        \<and> pairwise_disjoint (assignments r))
   \<and> (\<exists>r. cp_schedule default_cp meeting_request meeting_outcome = Inr r
        \<and> map a_task_id (assignments r) = [''b'', ''a'']
        \<and> pairwise_disjoint (assignments r))"
proof -
  have g1: "0 < swo_granularity_minutes default_swo" by (simp add: default_swo_def)
  have g2: "0 < cp_granularity_minutes default_cp" by (simp add: default_cp_def)
  have ids: "distinct (map task_id (tasks meeting_request))" by code_simp
  have sound: "solver_sound default_cp meeting_request meeting_outcome" by code_simp
  have hours: "cp_hours_ok default_cp" by code_simp
  note main = assignments_pairwise_disjoint
    [of default_swo meeting_request default_cp meeting_outcome]
  from main g1 obtain r1 where r1: "swo_schedule default_swo meeting_request = Inr r1"
    "pairwise_disjoint (assignments r1)" by blast
  from main g2 ids sound hours obtain r2
    where r2: "cp_schedule default_cp meeting_request meeting_outcome = Inr r2" by blast
  with main g2 ids sound have d2: "pairwise_disjoint (assignments r2)" by blast
  have e1: "swo_schedule default_swo meeting_request
      = Inr \<lparr>assignments =
               [\<lparr>a_task_id = ''b'', a_start = at_minute 540, a_end = at_minute 600,
                 deviation_minutes = 0, tardiness_minutes = 0\<rparr>,
                \<lparr>a_task_id = ''a'', a_start = at_minute 660, a_end = at_minute 750,
                 deviation_minutes = 0, tardiness_minutes = 0\<rparr>],
             unscheduled_tasks = [], objective_value = Some 0\<rparr>"
    by code_simp
  have e2: "cp_schedule default_cp meeting_request meeting_outcome
      = Inr \<lparr>assignments =
               [\<lparr>a_task_id = ''b'', a_start = at_minute 540, a_end = at_minute 600,
                 deviation_minutes = 0, tardiness_minutes = 0\<rparr>,
                \<lparr>a_task_id = ''a'', a_start = at_minute 660, a_end = at_minute 750,
                 deviation_minutes = 0, tardiness_minutes = 0\<rparr>],
             unscheduled_tasks = [], objective_value = Some 120\<rparr>"
    by code_simp
  from r1 e1 have m1: "map a_task_id (assignments r1) = [''b'', ''a'']" by auto
  from r2 e2 have m2: "map a_task_id (assignments r2) = [''b'', ''a'']" by auto
  have "\<exists>r. swo_schedule default_swo meeting_request = Inr r
        \<and> map a_task_id (assignments r) = [''b'', ''a'']
        \<and> pairwise_disjoint (assignments r)"
    using r1 m1 by (intro exI [of _ r1]) simp
  moreover have "\<exists>r. cp_schedule default_cp meeting_request meeting_outcome = Inr r
        \<and> map a_task_id (assignments r) = [''b'', ''a'']
        \<and> pairwise_disjoint (assignments r)"
    using r2 m2 d2 by (intro exI [of _ r2]) simp
  ultimately show ?thesis by (rule conjI)
qed

lemma zip_member:
  "length ts = length sol \<Longrightarrow> t' \<in> set ts \<Longrightarrow> \<exists>v. (t', v) \<in> set (zip ts sol)"
proof (induction ts sol rule: list_induct2)
  case Nil
  then show ?case by simp
next
  case (Cons x xs y ys)
  then show ?case by auto
qed

lemma zip_unique_id:
  assumes d: "distinct (map task_id (ts :: ScheduleTask list))"
    and len: "length (sol :: task_vars list) = length ts"
    and p1: "(t1, v1) \<in> set (zip ts sol)" and p2: "(t2, v2) \<in> set (zip ts sol)"
    and e: "task_id t1 = task_id t2"
  shows "t1 = t2 \<and> v1 = v2"
proof -
  have "t1 \<in> set ts" "t2 \<in> set ts" using p1 p2 by (auto dest: set_zip_leftD)
  moreover have "inj_on task_id (set ts)" using d by (simp add: distinct_map)
  ultimately have "t1 = t2" using e by (auto dest: inj_onD)
  moreover have "v1 = v2"
    using vars_of_pair [OF d len p1] vars_of_pair [OF d len p2] e by simp
  ultimately show ?thesis by simp
qed

lemma decoded_task_fields [simp]:
  "a_task_id (decoded_task ix t v) = task_id t"
  "a_start (decoded_task ix t v) = to_datetime ix (v_start v)"
  "a_end (decoded_task ix t v) = to_datetime ix (v_end v)"
  "deviation_minutes (decoded_task ix t v) = v_deviation v * granularity ix"
  "tardiness_minutes (decoded_task ix t v) = v_tardiness v * granularity ix"
  by (simp_all add: decoded_task_def)

text \<open>
  The assignments and the unscheduled ids of a result that \<^verbatim>\<open>schedule\<close> decodes from
  a solution, task by task, with the constraints that hold for the values of each task.
\<close>

lemma cp_result_facts:
  assumes g: "cp_granularity_minutes cfg \<noteq> 0" and ts: "tasks request = t # ts"
    and ids: "distinct (map task_id (tasks request))"
    and sound: "solver_sound cfg request (status, sol)"
    and st: "status = OPTIMAL \<or> status = FEASIBLE"
    and r: "cp_schedule cfg request (status, sol) = Inr r"
  defines "ix \<equiv> cp_indexer cfg t ts (meetings request)"
  defines "h \<equiv> horizon_slots_of ix t ts (meetings request)"
  defines "previous \<equiv> (case previous_assignments request of None \<Rightarrow> [] | Some p \<Rightarrow> p)"
  defines "wsr \<equiv> window_slot_range_of ix (neighborhood_window request)"
  shows "\<forall>a \<in> set (assignments r). \<exists>t' v. t' \<in> set (t # ts) \<and> (t', v) \<in> set (zip (t # ts) sol)
            \<and> v_present v \<and> a = decoded_task ix t' v
            \<and> task_constraints ix h previous wsr t' v"
    and "\<forall>t' \<in> set (t # ts). \<exists>v. (t', v) \<in> set (zip (t # ts) sol)
            \<and> task_constraints ix h previous wsr t' v
            \<and> (if v_present v
                then decoded_task ix t' v \<in> set (assignments r)
                     \<and> task_id t' \<notin> set (unscheduled_tasks r)
                else task_id t' \<in> set (unscheduled_tasks r)
                     \<and> task_id t' \<notin> a_task_id ` set (assignments r))"
    and "\<exists>blocks. working_blocks cfg ix h = Inr blocks
            \<and> sorted_wrt disjoint_intervals (model_intervals ix (meetings request) blocks sol)"
proof -
  from cp_schedule_returns [OF ts r] obtain blocks where
    b: "working_blocks cfg (cp_indexer cfg t ts (meetings request))
              (horizon_slots_of (cp_indexer cfg t ts (meetings request)) t ts (meetings request))
            = Inr blocks" by blast
  from cp_schedule_solved [OF g ts ids sound st b]
  have holds: "cp_model_holds ix h request blocks sol"
    and res: "cp_schedule cfg request (status, sol)
              = Inr \<lparr>assignments = sort_key a_start (decoded_assigned ix (zip (t # ts) sol)),
                     unscheduled_tasks = decoded_unscheduled (zip (t # ts) sol),
                     objective_value = (if status = OPTIMAL
                        then Some (cp_objective cfg (t # ts) (vars_of (t # ts) sol)) else None)\<rparr>"
    by (simp_all add: ix_def h_def)
  have len: "length sol = length (t # ts)"
    using holds by (simp add: cp_model_holds_def Let_def ts)
  have tc: "\<forall>p \<in> set (zip (t # ts) sol). task_constraints ix h previous wsr (fst p) (snd p)"
    using holds
    by (auto simp add: cp_model_holds_def Let_def ts list_all2_iff previous_def wsr_def
        simp del: zip_Cons_Cons)
  have no: "sorted_wrt disjoint_intervals (model_intervals ix (meetings request) blocks sol)"
    using holds by (simp add: cp_model_holds_def Let_def)
  have d: "distinct (map task_id (t # ts))" using ids by (simp add: ts)
  have as: "set (assignments r)
      = (\<lambda>p. decoded_task ix (fst p) (snd p)) ` {p \<in> set (zip (t # ts) sol). v_present (snd p)}"
    using res r by (auto simp add: decoded_assigned_def simp del: zip_Cons_Cons)
  have us: "set (unscheduled_tasks r)
      = (\<lambda>p. task_id (fst p)) ` {p \<in> set (zip (t # ts) sol). \<not> v_present (snd p)}"
    using res r by (auto simp add: decoded_unscheduled_def simp del: zip_Cons_Cons)
  show "\<forall>a \<in> set (assignments r). \<exists>t' v. t' \<in> set (t # ts) \<and> (t', v) \<in> set (zip (t # ts) sol)
            \<and> v_present v \<and> a = decoded_task ix t' v
            \<and> task_constraints ix h previous wsr t' v"
  proof
    fix a assume "a \<in> set (assignments r)"
    with as obtain p where p: "p \<in> set (zip (t # ts) sol)" "v_present (snd p)"
      "a = decoded_task ix (fst p) (snd p)" by auto
    from p(1) have "(fst p, snd p) \<in> set (zip (t # ts) sol)" by simp
    moreover from this have "fst p \<in> set (t # ts)" by (rule set_zip_leftD)
    moreover from tc p(1) have "task_constraints ix h previous wsr (fst p) (snd p)" by blast
    ultimately show "\<exists>t' v. t' \<in> set (t # ts) \<and> (t', v) \<in> set (zip (t # ts) sol)
            \<and> v_present v \<and> a = decoded_task ix t' v
            \<and> task_constraints ix h previous wsr t' v"
      using p(2,3) by blast
  qed
  show "\<forall>t' \<in> set (t # ts). \<exists>v. (t', v) \<in> set (zip (t # ts) sol)
            \<and> task_constraints ix h previous wsr t' v
            \<and> (if v_present v
                then decoded_task ix t' v \<in> set (assignments r)
                     \<and> task_id t' \<notin> set (unscheduled_tasks r)
                else task_id t' \<in> set (unscheduled_tasks r)
                     \<and> task_id t' \<notin> a_task_id ` set (assignments r))"
  proof
    fix t' assume t': "t' \<in> set (t # ts)"
    from zip_member [OF len [symmetric] t'] obtain v where v: "(t', v) \<in> set (zip (t # ts) sol)"
      by blast
    from tc v have c: "task_constraints ix h previous wsr t' v" by fastforce
    have uniq: "v' = v" if "(t'', v') \<in> set (zip (t # ts) sol)" "task_id t'' = task_id t'"
      for t'' v'
      using zip_unique_id [OF d len that(1) v that(2)] by simp
    have "decoded_task ix t' v \<in> set (assignments r) \<and> task_id t' \<notin> set (unscheduled_tasks r)"
      if pv: "v_present v"
    proof
      show "decoded_task ix t' v \<in> set (assignments r)"
        unfolding as using v pv by force
      show "task_id t' \<notin> set (unscheduled_tasks r)"
      proof
        assume "task_id t' \<in> set (unscheduled_tasks r)"
        then obtain p where p: "p \<in> set (zip (t # ts) sol)" "\<not> v_present (snd p)"
          "task_id (fst p) = task_id t'" unfolding us by auto
        from p(1) have "(fst p, snd p) \<in> set (zip (t # ts) sol)" by simp
        from uniq [OF this p(3)] p(2) pv show False by simp
      qed
    qed
    moreover have "task_id t' \<in> set (unscheduled_tasks r)
                     \<and> task_id t' \<notin> a_task_id ` set (assignments r)"
      if pv: "\<not> v_present v"
    proof
      show "task_id t' \<in> set (unscheduled_tasks r)"
        unfolding us using v pv by force
      show "task_id t' \<notin> a_task_id ` set (assignments r)"
      proof
        assume "task_id t' \<in> a_task_id ` set (assignments r)"
        then obtain p where p: "p \<in> set (zip (t # ts) sol)" "v_present (snd p)"
          "task_id (fst p) = task_id t'" unfolding as by auto
        from p(1) have "(fst p, snd p) \<in> set (zip (t # ts) sol)" by simp
        from uniq [OF this p(3)] p(2) pv show False by simp
      qed
    qed
    ultimately show "\<exists>v. (t', v) \<in> set (zip (t # ts) sol)
            \<and> task_constraints ix h previous wsr t' v
            \<and> (if v_present v
                then decoded_task ix t' v \<in> set (assignments r)
                     \<and> task_id t' \<notin> set (unscheduled_tasks r)
                else task_id t' \<in> set (unscheduled_tasks r)
                     \<and> task_id t' \<notin> a_task_id ` set (assignments r))"
      using v c by (intro exI [of _ v]) simp
  qed
  show "\<exists>blocks. working_blocks cfg ix h = Inr blocks
            \<and> sorted_wrt disjoint_intervals (model_intervals ix (meetings request) blocks sol)"
    using b no by (auto simp: ix_def h_def)
qed

text \<open>No values satisfy the constraints when the fixed start meets a meeting.\<close>

lemma fixed_clash_infeasible:
  assumes "status = OPTIMAL \<or> status = FEASIBLE"
  shows "\<not> solver_sound default_cp fixed_clash_request (status, sol)"
proof
  assume s: "solver_sound default_cp fixed_clash_request (status, sol)"
  define ix where "ix = \<lparr>base = 32400000000, granularity = 5\<rparr>"
  have ts: "tasks fixed_clash_request = [fixed_task]" by (simp add: fixed_clash_request_def)
  have ms: "meetings fixed_clash_request
      = [\<lparr>meeting_id = ''m'', meeting_start = at_minute 600, meeting_end = at_minute 660\<rparr>]"
    by (simp add: fixed_clash_request_def)
  have i: "cp_indexer default_cp fixed_task [] (meetings fixed_clash_request) = ix"
    unfolding ix_def by code_simp
  have h: "horizon_slots_of ix fixed_task [] (meetings fixed_clash_request) = 106"
    unfolding ix_def by code_simp
  have b: "working_blocks default_cp ix 106 = Inr [(96, 106)]"
    unfolding ix_def by code_simp
  from s assms have holds: "cp_model_holds ix 106 fixed_clash_request [(96, 106)] sol"
    by (auto simp add: solver_sound_def ts i h b Let_def)
  then have "length sol = 1" by (simp add: cp_model_holds_def Let_def ts)
  then obtain v where sol: "sol = [v]" by (cases sol) auto
  have f: "fixed_start fixed_task = Some (at_minute 600)"
    by (simp add: fixed_task_def plain_task_def)
  have slot: "to_slot ix (at_minute 600) = 12" unfolding ix_def by code_simp
  have dur: "duration_to_slots ix (duration_minutes fixed_task) = 12" unfolding ix_def by code_simp
  have mi: "meeting_interval ix
      \<lparr>meeting_id = ''m'', meeting_start = at_minute 600, meeting_end = at_minute 660\<rparr> = (12, 24)"
    unfolding ix_def by code_simp
  from holds have "task_constraints ix 106 []
      (window_slot_range_of ix (neighborhood_window fixed_clash_request)) fixed_task v"
    by (simp add: cp_model_holds_def Let_def ts sol fixed_clash_request_def)
  then have "v_start v = 12 \<and> v_present v \<and> (v_present v \<longrightarrow> v_start v + 12 = v_end v)"
    by (auto simp add: task_constraints_def Let_def f slot dur)
  then have v: "v_start v = 12" "v_present v" "v_end v = 24" by auto
  from holds have "disjoint_intervals (v_start v, v_end v, v_present v) (12, 24, True)"
    by (simp add: cp_model_holds_def Let_def ms sol model_intervals_def mi)
  with v show False by (simp add: disjoint_intervals_def)
qed

text \<open>
  Claim C8, as the code has it. Only the constraint scheduler reads \<^verbatim>\<open>fixed_start\<close>.
  When the solver reports \<^verbatim>\<open>OPTIMAL\<close> or \<^verbatim>\<open>FEASIBLE\<close>, a task with a fixed
  start is not among the unscheduled tasks and has an assignment that starts at the slot
  of its fixed start; with any other status the result has no assignment and the task is
  unscheduled.
\<close>

theorem cp_fixed_start_pinned:
  assumes g: "0 < cp_granularity_minutes cfg" and hours: "cp_hours_ok cfg"
    and ts: "tasks request = t # ts"
    and ids: "distinct (map task_id (tasks request))"
    and sound: "solver_sound cfg request (status, sol)"
    and t': "t' \<in> set (tasks request)" and f: "fixed_start t' = Some f"
  defines "ix \<equiv> cp_indexer cfg t ts (meetings request)"
  shows "\<exists>r. cp_schedule cfg request (status, sol) = Inr r
           \<and> (if status = OPTIMAL \<or> status = FEASIBLE
              then task_id t' \<notin> set (unscheduled_tasks r)
                   \<and> (\<exists>a. a \<in> set (assignments r) \<and> a_task_id a = task_id t'
                          \<and> a_start a = to_datetime ix (to_slot ix f)
                          \<and> to_slot ix (a_start a) = to_slot ix f)
              else assignments r = [] \<and> task_id t' \<in> set (unscheduled_tasks r))"
proof -
  have g0: "cp_granularity_minutes cfg \<noteq> 0" using g by simp
  from cp_schedule_total [OF g0 hours ids sound]
  obtain r where r: "cp_schedule cfg request (status, sol) = Inr r" by blast
  have gi: "0 < granularity ix" using g by (simp add: ix_def)
  show ?thesis
  proof (cases "status = OPTIMAL \<or> status = FEASIBLE")
    case True
    from cp_result_facts(2) [OF g0 ts ids sound True r] t' ts
    obtain v where c: "task_constraints ix
          (horizon_slots_of ix t ts (meetings request))
          (case previous_assignments request of None \<Rightarrow> [] | Some p \<Rightarrow> p)
          (window_slot_range_of ix (neighborhood_window request)) t' v"
      and d: "if v_present v
                then decoded_task ix t' v \<in> set (assignments r)
                     \<and> task_id t' \<notin> set (unscheduled_tasks r)
                else task_id t' \<in> set (unscheduled_tasks r)
                     \<and> task_id t' \<notin> a_task_id ` set (assignments r)"
      unfolding ix_def by force
    from c f have v: "v_start v = to_slot ix f" "v_present v"
      by (simp_all add: task_constraints_def Let_def)
    from d v have "decoded_task ix t' v \<in> set (assignments r)"
      and u: "task_id t' \<notin> set (unscheduled_tasks r)" by simp_all
    then have "\<exists>a. a \<in> set (assignments r) \<and> a_task_id a = task_id t'
                          \<and> a_start a = to_datetime ix (to_slot ix f)
                          \<and> to_slot ix (a_start a) = to_slot ix f"
      using v(1) by (intro exI [of _ "decoded_task ix t' v"]) (simp add: to_slot_to_datetime [OF gi])
    with u r True show ?thesis by auto
  next
    case False
    from cp_schedule_returns [OF ts r] obtain blocks where
      b: "working_blocks cfg (cp_indexer cfg t ts (meetings request))
              (horizon_slots_of (cp_indexer cfg t ts (meetings request)) t ts (meetings request))
            = Inr blocks" by blast
    from False have "status \<noteq> OPTIMAL \<and> status \<noteq> FEASIBLE" by simp
    from cp_schedule_unsolved [OF g0 ts this b, of sol] r
    have "assignments r = []" "unscheduled_tasks r = map task_id (t # ts)" by auto
    with t' ts r False show ?thesis by auto
  qed
qed

theorem cp_fixed_start_pinned_witness:
  "fixed_start fixed_task = Some (at_minute 600)
   \<and> (\<exists>r. cp_schedule default_cp fixed_request fixed_outcome = Inr r
         \<and> ''a'' \<notin> set (unscheduled_tasks r)
         \<and> (\<exists>a. a \<in> set (assignments r) \<and> a_task_id a = ''a'' \<and> a_start a = at_minute 600))"
proof -
  have g: "0 < cp_granularity_minutes default_cp" by (simp add: default_cp_def)
  have hours: "cp_hours_ok default_cp" by code_simp
  have ts: "tasks fixed_request = fixed_task # []" by (simp add: fixed_request_def)
  have ids: "distinct (map task_id (tasks fixed_request))" by code_simp
  have sound: "solver_sound default_cp fixed_request
     (OPTIMAL, [\<lparr>v_start = 12, v_end = 24, v_present = True, v_tardiness = 0, v_deviation = 0\<rparr>])"
    by code_simp
  have t': "fixed_task \<in> set (tasks fixed_request)" by (simp add: fixed_request_def)
  have f: "fixed_start fixed_task = Some (at_minute 600)"
    by (simp add: fixed_task_def plain_task_def)
  have id: "task_id fixed_task = ''a''" by (simp add: fixed_task_def plain_task_def)
  have dt: "to_datetime (cp_indexer default_cp fixed_task [] (meetings fixed_request))
              (to_slot (cp_indexer default_cp fixed_task [] (meetings fixed_request)) (at_minute 600))
            = at_minute 600" by code_simp
  from cp_fixed_start_pinned [OF g hours ts ids sound t' f]
  have "\<exists>r. cp_schedule default_cp fixed_request fixed_outcome = Inr r
         \<and> ''a'' \<notin> set (unscheduled_tasks r)
         \<and> (\<exists>a. a \<in> set (assignments r) \<and> a_task_id a = ''a'' \<and> a_start a = at_minute 600)"
    unfolding id dt fixed_outcome_def by (simp del: ex_simps) blast
  with f show ?thesis by (rule conjI)
qed

theorem fixed_start_not_pinned:
  "fixed_start fixed_task = Some (at_minute 600)
   \<and> swo_schedule default_swo fixed_request
      = Inr \<lparr>assignments = [\<lparr>a_task_id = ''a'', a_start = at_minute 540, a_end = at_minute 600,
                              deviation_minutes = 0, tardiness_minutes = 0\<rparr>],
             unscheduled_tasks = [], objective_value = Some 0\<rparr>
   \<and> at_minute 540 < at_minute 600
   \<and> (\<forall>sol. \<not> solver_sound default_cp fixed_clash_request (OPTIMAL, sol))
   \<and> (\<forall>sol. \<not> solver_sound default_cp fixed_clash_request (FEASIBLE, sol))
   \<and> cp_schedule default_cp fixed_clash_request (INFEASIBLE, [])
      = Inr \<lparr>assignments = [], unscheduled_tasks = [''a''], objective_value = None\<rparr>"
proof -
  have "fixed_start fixed_task = Some (at_minute 600)"
    by (simp add: fixed_task_def plain_task_def)
  moreover have "swo_schedule default_swo fixed_request
      = Inr \<lparr>assignments = [\<lparr>a_task_id = ''a'', a_start = at_minute 540, a_end = at_minute 600,
                              deviation_minutes = 0, tardiness_minutes = 0\<rparr>],
             unscheduled_tasks = [], objective_value = Some 0\<rparr>"
    by code_simp
  moreover have "at_minute 540 < at_minute 600" by code_simp
  moreover have "\<forall>sol. \<not> solver_sound default_cp fixed_clash_request (OPTIMAL, sol)"
    using fixed_clash_infeasible [of OPTIMAL] by simp
  moreover have "\<forall>sol. \<not> solver_sound default_cp fixed_clash_request (FEASIBLE, sol)"
    using fixed_clash_infeasible [of FEASIBLE] by simp
  moreover have "cp_schedule default_cp fixed_clash_request (INFEASIBLE, [])
      = Inr \<lparr>assignments = [], unscheduled_tasks = [''a''], objective_value = None\<rparr>"
    by code_simp
  ultimately show ?thesis by blast
qed

lemma to_datetime_to_slot_eq:
  assumes "0 < granularity ix"
  shows "to_datetime ix (to_slot ix x) = x
         \<longleftrightarrow> (x - base ix) mod (MICROS_PER_MINUTE * granularity ix) = 0"
proof -
  define D where "D = MICROS_PER_MINUTE * granularity ix"
  have "(x - base ix) div D * D + (x - base ix) mod D = x - base ix" by simp
  then have "base ix + (x - base ix) div D * D = x \<longleftrightarrow> (x - base ix) mod D = 0" by linarith
  then show ?thesis
    by (simp add: to_datetime_def to_slot_def D_def mult.commute mult.left_commute mult.assoc)
qed

text \<open>No values satisfy the constraints when the pinned slot meets a meeting.\<close>

lemma pin_clash_infeasible:
  assumes "status = OPTIMAL \<or> status = FEASIBLE"
  shows "\<not> solver_sound default_cp pin_clash_request (status, sol)"
proof
  assume s: "solver_sound default_cp pin_clash_request (status, sol)"
  define ix where "ix = \<lparr>base = 32400000000, granularity = 5\<rparr>"
  have ts: "tasks pin_clash_request = [pinned_task]"
    by (simp add: pin_clash_request_def pin_request_def)
  have ms: "meetings pin_clash_request
      = [\<lparr>meeting_id = ''m'', meeting_start = at_minute 660, meeting_end = at_minute 720\<rparr>]"
    by (simp add: pin_clash_request_def)
  have pr: "previous_assignments pin_clash_request = Some [(''a'', (at_minute 660, at_minute 720))]"
    by (simp add: pin_clash_request_def pin_request_def)
  have i: "cp_indexer default_cp pinned_task [] (meetings pin_clash_request) = ix"
    unfolding ix_def by code_simp
  have h: "horizon_slots_of ix pinned_task [] (meetings pin_clash_request) = 106"
    unfolding ix_def by code_simp
  have b: "working_blocks default_cp ix 106 = Inr [(96, 106)]"
    unfolding ix_def by code_simp
  from s assms have holds: "cp_model_holds ix 106 pin_clash_request [(96, 106)] sol"
    by (auto simp add: solver_sound_def ts i h b Let_def)
  then have "length sol = 1" by (simp add: cp_model_holds_def Let_def ts)
  then obtain v where sol: "sol = [v]" by (cases sol) auto
  have f: "fixed_start pinned_task = None"
    by (simp add: pinned_task_def plain_task_def)
  have w: "window_slot_range_of ix (neighborhood_window pin_clash_request) = Some (0, 12)"
    unfolding ix_def by code_simp
  have p: "cp_previous_start_slot ix [(''a'', (at_minute 660, at_minute 720))] pinned_task = Some 24"
    unfolding ix_def by code_simp
  have dur: "duration_to_slots ix (duration_minutes pinned_task) = 12" unfolding ix_def by code_simp
  have mi: "meeting_interval ix
      \<lparr>meeting_id = ''m'', meeting_start = at_minute 660, meeting_end = at_minute 720\<rparr> = (24, 36)"
    unfolding ix_def by code_simp
  from holds have "task_constraints ix 106 [(''a'', (at_minute 660, at_minute 720))]
      (Some (0, 12)) pinned_task v"
    by (simp add: cp_model_holds_def Let_def ts sol pr w)
  then have "v_start v = 24 \<and> v_present v \<and> (v_present v \<longrightarrow> v_start v + 12 = v_end v)"
    by (auto simp add: task_constraints_def Let_def f p dur)
  then have v: "v_start v = 24" "v_present v" "v_end v = 36" by auto
  from holds have "disjoint_intervals (v_start v, v_end v, v_present v) (24, 36, True)"
    by (simp add: cp_model_holds_def Let_def ms sol model_intervals_def mi)
  with v show False by (simp add: disjoint_intervals_def)
qed

text \<open>
  Claim C5, as the code has it. A task without fixed start whose previous start slot lies
  outside the slot range of the neighbourhood window is, when the solver reports
  \<^verbatim>\<open>OPTIMAL\<close> or \<^verbatim>\<open>FEASIBLE\<close>, assigned at the instant of its previous start
  slot, which is its previous start exactly when that start lies on the slot grid; with any
  other status the result has no assignment and the task is unscheduled.
\<close>

theorem cp_neighborhood_pin:
  assumes g: "0 < cp_granularity_minutes cfg" and hours: "cp_hours_ok cfg"
    and ts: "tasks request = t # ts"
    and ids: "distinct (map task_id (tasks request))"
    and sound: "solver_sound cfg request (status, sol)"
    and t': "t' \<in> set (tasks request)" and f: "fixed_start t' = None"
    and w: "neighborhood_window request = Some w"
    and pa: "map_of (case previous_assignments request of None \<Rightarrow> [] | Some p \<Rightarrow> p) (task_id t')
             = Some pa"
    and out: "\<not> (to_slot (cp_indexer cfg t ts (meetings request)) (fst w)
                   \<le> to_slot (cp_indexer cfg t ts (meetings request)) (fst pa)
                \<and> to_slot (cp_indexer cfg t ts (meetings request)) (fst pa)
                   \<le> to_slot_ceiling (cp_indexer cfg t ts (meetings request)) (snd w))"
  defines "ix \<equiv> cp_indexer cfg t ts (meetings request)"
  shows "\<exists>r. cp_schedule cfg request (status, sol) = Inr r
           \<and> (if status = OPTIMAL \<or> status = FEASIBLE
              then task_id t' \<notin> set (unscheduled_tasks r)
                   \<and> (\<exists>a. a \<in> set (assignments r) \<and> a_task_id a = task_id t'
                          \<and> a_start a = to_datetime ix (to_slot ix (fst pa))
                          \<and> (a_start a = fst pa
                              \<longleftrightarrow> (fst pa - base ix) mod (MICROS_PER_MINUTE * granularity ix) = 0))
              else assignments r = [] \<and> task_id t' \<in> set (unscheduled_tasks r))"
proof -
  have g0: "cp_granularity_minutes cfg \<noteq> 0" using g by simp
  from cp_schedule_total [OF g0 hours ids sound]
  obtain r where r: "cp_schedule cfg request (status, sol) = Inr r" by blast
  have gi: "0 < granularity ix" using g by (simp add: ix_def)
  show ?thesis
  proof (cases "status = OPTIMAL \<or> status = FEASIBLE")
    case True
    from cp_result_facts(2) [OF g0 ts ids sound True r] t' ts
    obtain v where c: "task_constraints ix
          (horizon_slots_of ix t ts (meetings request))
          (case previous_assignments request of None \<Rightarrow> [] | Some p \<Rightarrow> p)
          (window_slot_range_of ix (neighborhood_window request)) t' v"
      and d: "if v_present v
                then decoded_task ix t' v \<in> set (assignments r)
                     \<and> task_id t' \<notin> set (unscheduled_tasks r)
                else task_id t' \<in> set (unscheduled_tasks r)
                     \<and> task_id t' \<notin> a_task_id ` set (assignments r)"
      unfolding ix_def by force
    from c f w pa out have v: "v_start v = to_slot ix (fst pa)" "v_present v"
      by (simp_all add: task_constraints_def Let_def window_slot_range_of_def
          cp_previous_start_slot_def ix_def)
    from d v have "decoded_task ix t' v \<in> set (assignments r)"
      and u: "task_id t' \<notin> set (unscheduled_tasks r)" by simp_all
    then have "\<exists>a. a \<in> set (assignments r) \<and> a_task_id a = task_id t'
                          \<and> a_start a = to_datetime ix (to_slot ix (fst pa))
                          \<and> (a_start a = fst pa
                              \<longleftrightarrow> (fst pa - base ix) mod (MICROS_PER_MINUTE * granularity ix) = 0)"
      using v(1) by (intro exI [of _ "decoded_task ix t' v"]) (simp add: to_datetime_to_slot_eq [OF gi])
    with u r True show ?thesis by auto
  next
    case False
    from cp_schedule_returns [OF ts r] obtain blocks where
      b: "working_blocks cfg (cp_indexer cfg t ts (meetings request))
              (horizon_slots_of (cp_indexer cfg t ts (meetings request)) t ts (meetings request))
            = Inr blocks" by blast
    from False have "status \<noteq> OPTIMAL \<and> status \<noteq> FEASIBLE" by simp
    from cp_schedule_unsolved [OF g0 ts this b, of sol] r
    have "assignments r = []" "unscheduled_tasks r = map task_id (t # ts)" by auto
    with t' ts r False show ?thesis by auto
  qed
qed

theorem cp_neighborhood_pin_witness:
  "\<exists>r. cp_schedule default_cp pin_request pin_outcome = Inr r
       \<and> ''a'' \<notin> set (unscheduled_tasks r)
       \<and> (\<exists>a. a \<in> set (assignments r) \<and> a_task_id a = ''a'' \<and> a_start a = at_minute 660)"
proof -
  have g: "0 < cp_granularity_minutes default_cp" by (simp add: default_cp_def)
  have hours: "cp_hours_ok default_cp" by code_simp
  have ts: "tasks pin_request = pinned_task # []" by (simp add: pin_request_def)
  have ids: "distinct (map task_id (tasks pin_request))" by code_simp
  have sound: "solver_sound default_cp pin_request
     (OPTIMAL, [\<lparr>v_start = 24, v_end = 36, v_present = True, v_tardiness = 0, v_deviation = 0\<rparr>])"
    by code_simp
  have t': "pinned_task \<in> set (tasks pin_request)" by (simp add: pin_request_def)
  have f: "fixed_start pinned_task = None" by (simp add: pinned_task_def plain_task_def)
  have w: "neighborhood_window pin_request = Some (at_minute 540, at_minute 600)"
    by (simp add: pin_request_def)
  have pa: "map_of (case previous_assignments pin_request of None \<Rightarrow> [] | Some p \<Rightarrow> p)
              (task_id pinned_task) = Some (at_minute 660, at_minute 720)"
    by (simp add: pin_request_def pinned_task_def plain_task_def)
  have out: "\<not> (to_slot (cp_indexer default_cp pinned_task [] (meetings pin_request))
                    (fst (at_minute 540, at_minute 600))
                   \<le> to_slot (cp_indexer default_cp pinned_task [] (meetings pin_request))
                        (fst (at_minute 660, at_minute 720))
                \<and> to_slot (cp_indexer default_cp pinned_task [] (meetings pin_request))
                        (fst (at_minute 660, at_minute 720))
                   \<le> to_slot_ceiling (cp_indexer default_cp pinned_task [] (meetings pin_request))
                        (snd (at_minute 540, at_minute 600)))"
    by code_simp
  have id: "task_id pinned_task = ''a''" by (simp add: pinned_task_def plain_task_def)
  have dt: "to_datetime (cp_indexer default_cp pinned_task [] (meetings pin_request))
              (to_slot (cp_indexer default_cp pinned_task [] (meetings pin_request))
                 (fst (at_minute 660, at_minute 720)))
            = at_minute 660" by code_simp
  from cp_neighborhood_pin [OF g hours ts ids sound t' f w pa out]
  show ?thesis
    unfolding id dt pin_outcome_def by (simp del: ex_simps) blast
qed

theorem neighborhood_pin_fails:
  "window_slot_range_of (cp_indexer default_cp pinned_task [] [])
       (neighborhood_window pin_off_grid_request) = Some (0, 12)
   \<and> cp_previous_start_slot (cp_indexer default_cp pinned_task [] [])
       [(''a'', (at_minute 662, at_minute 722))] pinned_task = Some 24
   \<and> solver_sound default_cp pin_off_grid_request pin_outcome
   \<and> cp_schedule default_cp pin_off_grid_request pin_outcome
      = Inr \<lparr>assignments = [\<lparr>a_task_id = ''a'', a_start = at_minute 660, a_end = at_minute 720,
                              deviation_minutes = 0, tardiness_minutes = 0\<rparr>],
             unscheduled_tasks = [], objective_value = Some 120\<rparr>
   \<and> at_minute 660 < at_minute 662
   \<and> (\<forall>sol. \<not> solver_sound default_cp pin_clash_request (OPTIMAL, sol))
   \<and> (\<forall>sol. \<not> solver_sound default_cp pin_clash_request (FEASIBLE, sol))
   \<and> cp_schedule default_cp pin_clash_request (INFEASIBLE, [])
      = Inr \<lparr>assignments = [], unscheduled_tasks = [''a''], objective_value = None\<rparr>"
proof -
  have "window_slot_range_of (cp_indexer default_cp pinned_task [] [])
       (neighborhood_window pin_off_grid_request) = Some (0, 12)" by code_simp
  moreover have "cp_previous_start_slot (cp_indexer default_cp pinned_task [] [])
       [(''a'', (at_minute 662, at_minute 722))] pinned_task = Some 24" by code_simp
  moreover have "solver_sound default_cp pin_off_grid_request pin_outcome" by code_simp
  moreover have "cp_schedule default_cp pin_off_grid_request pin_outcome
      = Inr \<lparr>assignments = [\<lparr>a_task_id = ''a'', a_start = at_minute 660, a_end = at_minute 720,
                              deviation_minutes = 0, tardiness_minutes = 0\<rparr>],
             unscheduled_tasks = [], objective_value = Some 120\<rparr>"
    by code_simp
  moreover have "at_minute 660 < at_minute 662" by code_simp
  moreover have "\<forall>sol. \<not> solver_sound default_cp pin_clash_request (OPTIMAL, sol)"
    using pin_clash_infeasible [of OPTIMAL] by simp
  moreover have "\<forall>sol. \<not> solver_sound default_cp pin_clash_request (FEASIBLE, sol)"
    using pin_clash_infeasible [of FEASIBLE] by simp
  moreover have "cp_schedule default_cp pin_clash_request (INFEASIBLE, [])
      = Inr \<lparr>assignments = [], unscheduled_tasks = [''a''], objective_value = None\<rparr>"
    by code_simp
  ultimately show ?thesis by blast
qed

lemma to_slot_nonneg: "0 < granularity ix \<Longrightarrow> base ix \<le> x \<Longrightarrow> 0 \<le> to_slot ix x"
  by (simp add: to_slot_def micros_slot_pos pos_imp_zdiv_nonneg_iff)

lemma swo_start_tardiness:
  assumes g: "0 < swo_granularity_minutes cfg" and ts: "tasks request = t # ts"
  shows "\<exists>r. swo_schedule cfg request = Inr r
           \<and> (\<forall>a \<in> set (assignments r). \<exists>t' \<in> set (tasks request). task_id t' = a_task_id a
                  \<and> earliest_start t' \<le> a_start a
                  \<and> tardiness_minutes a = max 0 ((a_end a - due t') div MICROS_PER_MINUTE))"
proof -
  define ix where "ix = swo_indexer cfg t ts (meetings request)"
  have gi: "0 < granularity ix" using g by (simp add: ix_def swo_indexer_def)
  from swo_assignment_facts [OF g ts] obtain r where r: "swo_schedule cfg request = Inr r"
    and f: "\<forall>a \<in> set (assignments r). \<exists>t' s. t' \<in> set (t # ts) \<and> task_id t' = a_task_id a
                 \<and> a = build_assigned ix (make_info ix (horizon_slots_of ix t ts (meetings request))
                          (case previous_assignments request of None \<Rightarrow> [] | Some p \<Rightarrow> p) t')
                        (a_task_id a) s
                 \<and> slot_admissible (make_info ix (horizon_slots_of ix t ts (meetings request))
                          (case previous_assignments request of None \<Rightarrow> [] | Some p \<Rightarrow> p) t')
                      (base_occupancy_of cfg ix (horizon_slots_of ix t ts (meetings request))
                         (meetings request)) s"
    unfolding ix_def by blast
  have "\<exists>t' \<in> set (tasks request). task_id t' = a_task_id a
                  \<and> earliest_start t' \<le> a_start a
                  \<and> tardiness_minutes a = max 0 ((a_end a - due t') div MICROS_PER_MINUTE)"
    if a: "a \<in> set (assignments r)" for a
  proof -
    define previous where "previous = (case previous_assignments request of None \<Rightarrow> [] | Some p \<Rightarrow> p)"
    define h where "h = horizon_slots_of ix t ts (meetings request)"
    from f a obtain t' s where t': "t' \<in> set (t # ts)" "task_id t' = a_task_id a"
      and e: "a = build_assigned ix (make_info ix h previous t') (a_task_id a) s"
      and ad: "slot_admissible (make_info ix h previous t')
                 (base_occupancy_of cfg ix h (meetings request)) s"
      unfolding previous_def h_def by blast
    have st: "a_start a = to_datetime ix s" by (subst e) simp
    have en: "a_end a = to_datetime ix (s + duration_slots (make_info ix h previous t'))"
      by (subst e) simp
    have "to_slot_ceiling ix (earliest_start t') \<le> s"
      using ad by (simp add: slot_admissible_def)
    then have "to_datetime ix (to_slot_ceiling ix (earliest_start t')) \<le> to_datetime ix s"
      by (rule to_datetime_mono [OF gi])
    with to_datetime_ceiling_ge [OF gi, of "earliest_start t'"]
    have 1: "earliest_start t' \<le> a_start a" by (simp add: st)
    have "tardiness_minutes a
       = (if a_end a > due t' then (a_end a - due t') div MICROS_PER_MINUTE else 0)"
      unfolding en by (subst e) (simp add: build_assigned_tardiness)
    moreover have "0 \<le> (a_end a - due t') div MICROS_PER_MINUTE" if "a_end a > due t'"
      using that by (simp add: MICROS_PER_MINUTE_def pos_imp_zdiv_nonneg_iff)
    moreover have "(a_end a - due t') div MICROS_PER_MINUTE \<le> 0" if "\<not> a_end a > due t'"
      using that zdiv_mono1 [of "a_end a - due t'" 0 MICROS_PER_MINUTE]
      by (simp add: MICROS_PER_MINUTE_def)
    ultimately have 2: "tardiness_minutes a = max 0 ((a_end a - due t') div MICROS_PER_MINUTE)"
      by (auto simp: max_def)
    from t' 1 2 show ?thesis by (auto simp: ts)
  qed
  with r show ?thesis by blast
qed

lemma cp_start_tardiness:
  assumes g: "0 < cp_granularity_minutes cfg" and hours: "cp_hours_ok cfg"
    and ts: "tasks request = t # ts"
    and ids: "distinct (map task_id (tasks request))"
    and sound: "solver_sound cfg request (status, sol)"
  defines "ix \<equiv> cp_indexer cfg t ts (meetings request)"
  shows "\<exists>r. cp_schedule cfg request (status, sol) = Inr r
           \<and> (\<forall>a \<in> set (assignments r). \<exists>t' \<in> set (tasks request). task_id t' = a_task_id a
                  \<and> ((earliest_start t' - base ix) mod (MICROS_PER_MINUTE * granularity ix) = 0
                      \<longrightarrow> earliest_start t' \<le> a_start a)
                  \<and> a_end a \<le> to_datetime ix (to_slot_ceiling ix (due t'))
                  \<and> a_end a < due t' + granularity ix * MICROS_PER_MINUTE
                  \<and> 0 \<le> tardiness_minutes a
                  \<and> tardiness_minutes a mod granularity ix = 0)"
proof -
  have g0: "cp_granularity_minutes cfg \<noteq> 0" using g by simp
  from cp_schedule_total [OF g0 hours ids sound]
  obtain r where r: "cp_schedule cfg request (status, sol) = Inr r" by blast
  have gi: "0 < granularity ix" using g by (simp add: ix_def)
  show ?thesis
  proof (cases "status = OPTIMAL \<or> status = FEASIBLE")
    case False
    from cp_schedule_returns [OF ts r] obtain blocks where
      b: "working_blocks cfg (cp_indexer cfg t ts (meetings request))
              (horizon_slots_of (cp_indexer cfg t ts (meetings request)) t ts (meetings request))
            = Inr blocks" by blast
    from False have "status \<noteq> OPTIMAL \<and> status \<noteq> FEASIBLE" by simp
    from cp_schedule_unsolved [OF g0 ts this b, of sol] r
    have "assignments r = []" by auto
    with r show ?thesis by simp
  next
    case True
    define h where "h = horizon_slots_of ix t ts (meetings request)"
    define previous where "previous = (case previous_assignments request of None \<Rightarrow> [] | Some p \<Rightarrow> p)"
    define wsr where "wsr = window_slot_range_of ix (neighborhood_window request)"
    note facts = cp_result_facts(1) [OF g0 ts ids sound True r, folded ix_def,
        folded h_def previous_def wsr_def]
    have "\<exists>t' \<in> set (tasks request). task_id t' = a_task_id a
                  \<and> ((earliest_start t' - base ix) mod (MICROS_PER_MINUTE * granularity ix) = 0
                      \<longrightarrow> earliest_start t' \<le> a_start a)
                  \<and> a_end a \<le> to_datetime ix (to_slot_ceiling ix (due t'))
                  \<and> a_end a < due t' + granularity ix * MICROS_PER_MINUTE
                  \<and> 0 \<le> tardiness_minutes a
                  \<and> tardiness_minutes a mod granularity ix = 0"
      if a: "a \<in> set (assignments r)" for a
    proof -
      from facts a obtain t' v where t': "t' \<in> set (t # ts)" and pv: "v_present v"
        and e: "a = decoded_task ix t' v"
        and c: "task_constraints ix h previous wsr t' v" by blast
      from c pv have es: "cp_earliest_slot ix t' \<le> v_start v"
        and en: "v_end v \<le> to_slot_ceiling ix (due t')"
        and td: "0 \<le> v_tardiness v"
        by (simp_all add: task_constraints_def Let_def)
      have "to_slot ix (earliest_start t') \<le> v_start v"
        using es by (simp add: cp_earliest_slot_def)
      then have "to_datetime ix (to_slot ix (earliest_start t')) \<le> a_start a"
        unfolding e by (simp add: to_datetime_mono [OF gi])
      then have 1: "(earliest_start t' - base ix) mod (MICROS_PER_MINUTE * granularity ix) = 0
                      \<longrightarrow> earliest_start t' \<le> a_start a"
        using to_datetime_to_slot_eq [OF gi, of "earliest_start t'"] by auto
      have 2: "a_end a \<le> to_datetime ix (to_slot_ceiling ix (due t'))"
        unfolding e using en by (simp add: to_datetime_mono [OF gi])
      with to_datetime_ceiling_lt [OF gi, of "due t'"]
      have 3: "a_end a < due t' + granularity ix * MICROS_PER_MINUTE" by linarith
      have 4: "0 \<le> tardiness_minutes a" "tardiness_minutes a mod granularity ix = 0"
        unfolding e using td gi by simp_all
      from t' e 1 2 3 4 show ?thesis by (auto simp: ts)
    qed
    with r show ?thesis by blast
  qed
qed

text \<open>The values of \<open>early_outcome\<close> are the only ones with an objective of 0 or less.\<close>

lemma early_optimum_unique:
  assumes st: "status = OPTIMAL \<or> status = FEASIBLE"
    and s: "solver_sound default_cp early_request (status, sol)"
    and obj: "cp_objective default_cp (tasks early_request) (vars_of (tasks early_request) sol) \<le> 0"
  shows "sol = snd early_outcome"
proof -
  define ix where "ix = \<lparr>base = 32400000000, granularity = 5\<rparr>"
  have ts: "tasks early_request = [early_task]" by (simp add: early_request_def)
  have i: "cp_indexer default_cp early_task [] (meetings early_request) = ix"
    unfolding ix_def by code_simp
  have h: "horizon_slots_of ix early_task [] (meetings early_request) = 106"
    unfolding ix_def by code_simp
  have b: "working_blocks default_cp ix 106 = Inr [(96, 106)]"
    unfolding ix_def by code_simp
  from s st have holds: "cp_model_holds ix 106 early_request [(96, 106)] sol"
    by (auto simp add: solver_sound_def ts i h b Let_def)
  then have "length sol = 1" by (simp add: cp_model_holds_def Let_def ts)
  then obtain v where sol: "sol = [v]" by (cases sol) auto
  have f: "fixed_start early_task = None" "task_id early_task = ''a''" "priority early_task = 5"
    by (simp_all add: early_task_def plain_task_def)
  have e: "cp_earliest_slot ix early_task = 0" unfolding ix_def by code_simp
  have dur: "duration_to_slots ix (duration_minutes early_task) = 6" unfolding ix_def by code_simp
  from holds have "task_constraints ix 106 [] None early_task v"
    by (simp add: cp_model_holds_def Let_def ts sol early_request_def window_slot_range_of_def)
  then have c: "0 \<le> v_start v \<and> v_present v \<and> (v_present v \<longrightarrow> v_start v + 6 = v_end v)
      \<and> 0 \<le> v_tardiness v \<and> v_deviation v = 0"
    by (auto simp add: task_constraints_def Let_def f e dur cp_previous_start_slot_def)
  have "cp_objective default_cp [early_task] (vars_of [early_task] [v])
      = 1000 * v_tardiness v + 5 * v_start v"
    using c by (simp add: cp_objective_def vars_of_def f default_cp_def)
  with obj c have "v_start v = 0 \<and> v_tardiness v = 0" by (simp add: ts sol)
  with c have "v = \<lparr>v_start = 0, v_end = 6, v_present = True, v_tardiness = 0, v_deviation = 0\<rparr>"
    by (cases v) auto
  then show ?thesis by (simp add: sol early_outcome_def)
qed

text \<open>Behind the meeting only the slots 6 to 12 are left for the overdue task.\<close>

lemma overdue_forced:
  assumes st: "status = OPTIMAL \<or> status = FEASIBLE"
    and s: "solver_sound default_cp overdue_request (status, sol)"
  shows "map (\<lambda>v. (v_start v, v_end v, v_present v)) sol = [(6, 12, True)]"
proof -
  define ix where "ix = \<lparr>base = 32400000000, granularity = 5\<rparr>"
  have ts: "tasks overdue_request = [overdue_task]" by (simp add: overdue_request_def)
  have ms: "meetings overdue_request
      = [\<lparr>meeting_id = ''m'', meeting_start = at_minute 540, meeting_end = at_minute 570\<rparr>]"
    by (simp add: overdue_request_def)
  have i: "cp_indexer default_cp overdue_task [] (meetings overdue_request) = ix"
    unfolding ix_def by code_simp
  have h: "horizon_slots_of ix overdue_task [] (meetings overdue_request) = 22"
    unfolding ix_def by code_simp
  have b: "working_blocks default_cp ix 22 = Inr []"
    unfolding ix_def by code_simp
  from s st have holds: "cp_model_holds ix 22 overdue_request [] sol"
    by (auto simp add: solver_sound_def ts i h b Let_def)
  then have "length sol = 1" by (simp add: cp_model_holds_def Let_def ts)
  then obtain v where sol: "sol = [v]" by (cases sol) auto
  have f: "fixed_start overdue_task = None" "task_id overdue_task = ''a''"
    by (simp_all add: overdue_task_def plain_task_def)
  have e: "cp_earliest_slot ix overdue_task = 0" unfolding ix_def by code_simp
  have l: "cp_latest_start_slot ix 22 overdue_task = 6" unfolding ix_def by code_simp
  have dur: "duration_to_slots ix (duration_minutes overdue_task) = 6" unfolding ix_def by code_simp
  have mi: "meeting_interval ix
      \<lparr>meeting_id = ''m'', meeting_start = at_minute 540, meeting_end = at_minute 570\<rparr> = (0, 6)"
    unfolding ix_def by code_simp
  from holds have "task_constraints ix 22 [] None overdue_task v"
    by (simp add: cp_model_holds_def Let_def ts sol overdue_request_def window_slot_range_of_def)
  then have c: "0 \<le> v_start v \<and> v_start v \<le> 6 \<and> v_present v
      \<and> (v_present v \<longrightarrow> v_start v + 6 = v_end v)"
    by (auto simp add: task_constraints_def Let_def f e l dur cp_previous_start_slot_def)
  from holds have "disjoint_intervals (v_start v, v_end v, v_present v) (0, 6, True)"
    by (simp add: cp_model_holds_def Let_def ms sol model_intervals_def mi)
  with c have "v_start v = 6 \<and> v_end v = 12 \<and> v_present v"
    by (auto simp add: disjoint_intervals_def)
  then show ?thesis by (simp add: sol)
qed

text \<open>
  Claim C3. The schedulers do not keep the claim. The squeaky-wheel scheduler starts every
  assignment at or after the earliest start (\<open>swo_start_tardiness\<close>), but cuts the lateness
  down to whole minutes: a task due at 09:59:30 that ends at 10:00 is reported with
  tardiness 0. The constraint scheduler takes the floor slot of the earliest start, so that
  a task that may start at 09:02 is started at 09:00 by the only optimal values; and it
  measures tardiness from the ceiling slot of the due instant, by which every present task
  must end, so that a task due at 09:58 that can only end at 10:00 is reported with
  tardiness 0.
\<close>

theorem start_tardiness_fails:
  "swo_schedule default_swo half_minute_request
     = Inr \<lparr>assignments = [\<lparr>a_task_id = ''a'', a_start = at_minute 540, a_end = at_minute 600,
                             deviation_minutes = 0, tardiness_minutes = 0\<rparr>],
            unscheduled_tasks = [], objective_value = Some 0\<rparr>
   \<and> max 0 (ceil_div (at_minute 600 - (at_minute 599 + 30000000)) MICROS_PER_MINUTE) = 1
   \<and> solver_sound default_cp early_request early_outcome
   \<and> \<not> (\<exists>sol. solver_sound default_cp early_request (OPTIMAL, sol) \<and> sol \<noteq> snd early_outcome
            \<and> cp_objective default_cp (tasks early_request) (vars_of (tasks early_request) sol) \<le> 0)
   \<and> cp_schedule default_cp early_request early_outcome
     = Inr \<lparr>assignments = [\<lparr>a_task_id = ''a'', a_start = at_minute 540, a_end = at_minute 570,
                             deviation_minutes = 0, tardiness_minutes = 0\<rparr>],
            unscheduled_tasks = [], objective_value = Some 0\<rparr>
   \<and> at_minute 540 < earliest_start early_task
   \<and> solver_sound default_cp overdue_request overdue_outcome
   \<and> \<not> (\<exists>status sol. (status = OPTIMAL \<or> status = FEASIBLE)
            \<and> solver_sound default_cp overdue_request (status, sol)
            \<and> map (\<lambda>v. (v_start v, v_end v, v_present v)) sol \<noteq> [(6, 12, True)])
   \<and> cp_schedule default_cp overdue_request overdue_outcome
     = Inr \<lparr>assignments = [\<lparr>a_task_id = ''a'', a_start = at_minute 570, a_end = at_minute 600,
                             deviation_minutes = 0, tardiness_minutes = 0\<rparr>],
            unscheduled_tasks = [], objective_value = Some 30\<rparr>
   \<and> max 0 (ceil_div (at_minute 600 - due overdue_task) MICROS_PER_MINUTE) = 2"
proof -
  have "swo_schedule default_swo half_minute_request
     = Inr \<lparr>assignments = [\<lparr>a_task_id = ''a'', a_start = at_minute 540, a_end = at_minute 600,
                             deviation_minutes = 0, tardiness_minutes = 0\<rparr>],
            unscheduled_tasks = [], objective_value = Some 0\<rparr>" by code_simp
  moreover have "max 0 (ceil_div (at_minute 600 - (at_minute 599 + 30000000)) MICROS_PER_MINUTE) = 1"
    by code_simp
  moreover have "solver_sound default_cp early_request early_outcome" by code_simp
  moreover have "\<not> (\<exists>sol. solver_sound default_cp early_request (OPTIMAL, sol)
            \<and> sol \<noteq> snd early_outcome
            \<and> cp_objective default_cp (tasks early_request) (vars_of (tasks early_request) sol) \<le> 0)"
    using early_optimum_unique [of OPTIMAL] by blast
  moreover have "cp_schedule default_cp early_request early_outcome
     = Inr \<lparr>assignments = [\<lparr>a_task_id = ''a'', a_start = at_minute 540, a_end = at_minute 570,
                             deviation_minutes = 0, tardiness_minutes = 0\<rparr>],
            unscheduled_tasks = [], objective_value = Some 0\<rparr>" by code_simp
  moreover have "at_minute 540 < earliest_start early_task" by code_simp
  moreover have "solver_sound default_cp overdue_request overdue_outcome" by code_simp
  moreover have "\<not> (\<exists>status sol. (status = OPTIMAL \<or> status = FEASIBLE)
            \<and> solver_sound default_cp overdue_request (status, sol)
            \<and> map (\<lambda>v. (v_start v, v_end v, v_present v)) sol \<noteq> [(6, 12, True)])"
    using overdue_forced by blast
  moreover have "cp_schedule default_cp overdue_request overdue_outcome
     = Inr \<lparr>assignments = [\<lparr>a_task_id = ''a'', a_start = at_minute 570, a_end = at_minute 600,
                             deviation_minutes = 0, tardiness_minutes = 0\<rparr>],
            unscheduled_tasks = [], objective_value = Some 30\<rparr>" by code_simp
  moreover have "max 0 (ceil_div (at_minute 600 - due overdue_task) MICROS_PER_MINUTE) = 2"
    by code_simp
  ultimately show ?thesis by blast
qed



















lemma swo_indexer_fields [simp]:
  "granularity (swo_indexer cfg t ts ms) = swo_granularity_minutes cfg"
  "base (swo_indexer cfg t ts ms) = base_start_of (swo_granularity_minutes cfg) t ts ms"
  by (simp_all add: swo_indexer_def)










text \<open>The domain of the start variable leaves only the slots 6 to 12 for the task.\<close>

lemma squeezed_forced:
  assumes st: "status = OPTIMAL \<or> status = FEASIBLE"
    and s: "solver_sound default_cp squeezed_request (status, sol)"
  shows "map (\<lambda>v. (v_start v, v_end v, v_present v)) sol = [(6, 12, True)]"
proof -
  define ix where "ix = \<lparr>base = 36000000000, granularity = 5\<rparr>"
  have ts: "tasks squeezed_request = [squeezed_task]" by (simp add: squeezed_request_def)
  have i: "cp_indexer default_cp squeezed_task [] (meetings squeezed_request) = ix"
    unfolding ix_def by code_simp
  have h: "horizon_slots_of ix squeezed_task [] (meetings squeezed_request) = 22"
    unfolding ix_def by code_simp
  have b: "working_blocks default_cp ix 22 = Inr []"
    unfolding ix_def by code_simp
  from s st have holds: "cp_model_holds ix 22 squeezed_request [] sol"
    by (auto simp add: solver_sound_def ts i h b Let_def)
  then have "length sol = 1" by (simp add: cp_model_holds_def Let_def ts)
  then obtain v where sol: "sol = [v]" by (cases sol) auto
  have f: "fixed_start squeezed_task = None" "task_id squeezed_task = ''a''"
    by (simp_all add: squeezed_task_def plain_task_def)
  have e: "cp_earliest_slot ix squeezed_task = 6" unfolding ix_def by code_simp
  have l: "cp_latest_start_slot ix 22 squeezed_task = 6" unfolding ix_def by code_simp
  have dur: "duration_to_slots ix (duration_minutes squeezed_task) = 6" unfolding ix_def by code_simp
  from holds have "task_constraints ix 22 [] None squeezed_task v"
    by (simp add: cp_model_holds_def Let_def ts sol squeezed_request_def window_slot_range_of_def)
  then have c: "6 \<le> v_start v \<and> v_start v \<le> 6 \<and> v_present v
      \<and> (v_present v \<longrightarrow> v_start v + 6 = v_end v)"
    by (auto simp add: task_constraints_def Let_def f e l dur cp_previous_start_slot_def)
  then have "v_start v = 6 \<and> v_end v = 12 \<and> v_present v" by auto
  then show ?thesis by (simp add: sol)
qed



text \<open>
  A meeting that starts off the slot grid is blocked from the floor slot of its start for
  the slots of its length, which can end before the meeting does: the only values for
  \<open>squeezed_request\<close> put the task at 10:30, two minutes before the meeting ends.
\<close>

lemma squeezed_meeting_overlap:
  "solver_sound default_cp squeezed_request squeezed_outcome
   \<and> \<not> (\<exists>status sol. (status = OPTIMAL \<or> status = FEASIBLE)
            \<and> solver_sound default_cp squeezed_request (status, sol)
            \<and> map (\<lambda>v. (v_start v, v_end v, v_present v)) sol \<noteq> [(6, 12, True)])
   \<and> cp_schedule default_cp squeezed_request squeezed_outcome
     = Inr \<lparr>assignments = [\<lparr>a_task_id = ''a'', a_start = at_minute 630, a_end = at_minute 660,
                             deviation_minutes = 0, tardiness_minutes = 0\<rparr>],
            unscheduled_tasks = [], objective_value = Some 30\<rparr>
   \<and> map (\<lambda>m. (meeting_start m, meeting_end m)) (meetings squeezed_request)
       = [(at_minute 602, at_minute 632)]
   \<and> at_minute 630 \<in> {at_minute 630 ..< at_minute 660} \<inter> {at_minute 602 ..< at_minute 632}"
proof -
  have "solver_sound default_cp squeezed_request squeezed_outcome" by code_simp
  moreover have "\<not> (\<exists>status sol. (status = OPTIMAL \<or> status = FEASIBLE)
            \<and> solver_sound default_cp squeezed_request (status, sol)
            \<and> map (\<lambda>v. (v_start v, v_end v, v_present v)) sol \<noteq> [(6, 12, True)])"
    using squeezed_forced by blast
  moreover have "cp_schedule default_cp squeezed_request squeezed_outcome
     = Inr \<lparr>assignments = [\<lparr>a_task_id = ''a'', a_start = at_minute 630, a_end = at_minute 660,
                             deviation_minutes = 0, tardiness_minutes = 0\<rparr>],
            unscheduled_tasks = [], objective_value = Some 30\<rparr>" by code_simp
  moreover have "map (\<lambda>m. (meeting_start m, meeting_end m)) (meetings squeezed_request)
       = [(at_minute 602, at_minute 632)]" by code_simp
  moreover have "at_minute 630 \<in> {at_minute 630 ..< at_minute 660} \<inter> {at_minute 602 ..< at_minute 632}"
    by (simp add: at_minute_def MICROS_PER_MINUTE_def)
  ultimately show ?thesis by blast
qed

lemma fold_update_lookup:
  "map_of (fold (\<lambda>entry mapping. AList.update (fst entry) (snd entry) mapping) entries acc) k
     = (case map_of (rev entries) k of Some v \<Rightarrow> Some v | None \<Rightarrow> map_of acc k)"
proof (induction entries arbitrary: acc)
  case Nil
  then show ?case by simp
next
  case (Cons e entries)
  show ?case
    by (simp add: Cons.IH update_conv' map_add_def split: option.splits)
qed

lemma schedule_mapping_lookup:
  "map_of (schedule_mapping rows) k = map_of (rev (concat (map mapping_entries rows))) k"
  by (simp add: schedule_mapping_def fold_update_lookup split: option.splits)

lemma uuid_string_no_colon:
  assumes "uuid_string s"
  shows "CHR '':'' \<notin> set s" and "length s = 36"
proof -
  from assms show l: "length s = 36" by (simp add: uuid_string_def)
  show "CHR '':'' \<notin> set s"
  proof
    assume "CHR '':'' \<in> set s"
    then obtain i where i: "i < 36" "s ! i = CHR '':''" using l by (auto simp: in_set_conv_nth)
    from assms [unfolded uuid_string_def list_all_iff]
    have "\<forall>i \<in> set [0 ..< 36]. if i \<in> {8, 13, 18, 23} then s ! i = CHR ''-''
                       else s ! i \<in> set ''0123456789abcdef''"
      by (rule conjunct2)
    moreover have "i \<in> set [0 ..< 36]" using i(1) by simp
    ultimately have "if i \<in> {8, 13, 18, 23} then s ! i = CHR ''-''
                       else s ! i \<in> set ''0123456789abcdef''" by (rule bspec)
    with i(2) show False by (auto split: if_splits)
  qed
qed

lemma schedule_id_colon: "0 < index \<Longrightarrow> CHR '':'' \<in> set (schedule_id r index)"
  by (simp add: schedule_id_def)

lemma schedule_id_inject:
  assumes "uuid_string r" and "uuid_string r'"
    and "schedule_id r i = schedule_id r' j"
  shows "r = r'"
proof (cases "i = 0")
  case True
  show ?thesis
  proof (cases "j = 0")
    case True
    with \<open>i = 0\<close> assms(3) show ?thesis by (simp add: schedule_id_def)
  next
    case False
    then have "CHR '':'' \<in> set (schedule_id r' j)" by (simp add: schedule_id_colon)
    with assms(3) \<open>i = 0\<close> have "CHR '':'' \<in> set r" by (simp add: schedule_id_def)
    with uuid_string_no_colon(1) [OF assms(1)] show ?thesis by simp
  qed
next
  case False
  show ?thesis
  proof (cases "j = 0")
    case True
    from False have "CHR '':'' \<in> set (schedule_id r i)" by (simp add: schedule_id_colon)
    with assms(3) True have "CHR '':'' \<in> set r'" by (simp add: schedule_id_def)
    with uuid_string_no_colon(1) [OF assms(2)] show ?thesis by simp
  next
    case j: False
    have "length r = length r'"
      using uuid_string_no_colon(2) [OF assms(1)] uuid_string_no_colon(2) [OF assms(2)] by simp
    with assms(3) False j show ?thesis by (simp add: schedule_id_def)
  qed
qed

text \<open>Every segment id is a key of the mapping that the service builds, with its root id.\<close>

lemma schedule_mapping_segment:
  assumes ids: "\<forall>row \<in> set rows. uuid_string (id_str row)"
    and row: "row \<in> set rows"
    and index: "index < length (segment_duration (row_duration_minutes row))"
  shows "map_of (schedule_mapping rows) (schedule_id (id_str row) index) = Some (id_str row)"
proof -
  let ?entries = "concat (map mapping_entries rows)"
  let ?k = "schedule_id (id_str row) index"
  have "(?k, id_str row) \<in> set (mapping_entries row)"
    using index by (simp add: mapping_entries_def)
  then have mem: "(?k, id_str row) \<in> set (rev ?entries)"
    using row by auto
  have uniq: "v = id_str row" if "(?k, v) \<in> set (rev ?entries)" for v
  proof -
    from that obtain row' j where r': "row' \<in> set rows" "?k = schedule_id (id_str row') j"
      "v = id_str row'" by (auto simp: mapping_entries_def)
    from schedule_id_inject [OF _ _ r'(2)] ids row r'(1) have "id_str row = id_str row'" by blast
    with r'(3) show ?thesis by simp
  qed
  from mem have "map_of (rev ?entries) ?k \<noteq> None"
    by (simp add: map_of_eq_None_iff image_iff) force
  then obtain v where v: "map_of (rev ?entries) ?k = Some v" by blast
  from map_of_SomeD [OF v] uniq have "v = id_str row" by blast
  with v show ?thesis by (simp add: schedule_mapping_lookup)
qed

text \<open>Every value of that mapping is a root id, and a root id is mapped to itself.\<close>

lemma schedule_mapping_value:
  assumes ids: "\<forall>row \<in> set rows. uuid_string (id_str row)"
    and k: "map_of (schedule_mapping rows) k = Some v"
  shows "map_of (schedule_mapping rows) v = Some v"
proof -
  from k have "(k, v) \<in> set (rev (concat (map mapping_entries rows)))"
    by (auto simp: schedule_mapping_lookup dest: map_of_SomeD)
  then obtain row j where r: "row \<in> set rows" "v = id_str row"
    "j < length (segment_duration (row_duration_minutes row))"
    by (auto simp: mapping_entries_def)
  then have "0 < length (segment_duration (row_duration_minutes row))" by linarith
  from schedule_mapping_segment [OF ids r(1) this] r(2) show ?thesis
    by (simp add: schedule_id_def)
qed

lemma dict_get_idem:
  assumes "\<And>k v. mapping k = Some v \<Longrightarrow> mapping v = Some v"
  shows "dict_get mapping (dict_get mapping k k) (dict_get mapping k k) = dict_get mapping k k"
proof (cases "mapping k")
  case None
  then show ?thesis by (simp add: dict_get_def)
next
  case (Some v)
  with assms [OF Some] show ?thesis by (simp add: dict_get_def)
qed

lemma remap_schedule_result_fields:
  "assignments (remap_schedule_result result mapping)
     = map (\<lambda>a. a\<lparr>a_task_id := dict_get mapping (a_task_id a) (a_task_id a)\<rparr>) (assignments result)"
  "unscheduled_tasks (remap_schedule_result result mapping)
     = sort (remdups (map (\<lambda>task_id. dict_get mapping task_id task_id) (unscheduled_tasks result)))"
  "objective_value (remap_schedule_result result mapping) = objective_value result"
  by (simp_all add: remap_schedule_result_def Let_def)

lemma remap_schedule_result_idem:
  assumes "\<And>k v. mapping k = Some v \<Longrightarrow> mapping v = Some v"
  shows "remap_schedule_result (remap_schedule_result result mapping) mapping
         = remap_schedule_result result mapping"
proof (rule ScheduleResult.equality)
  let ?g = "\<lambda>task_id. dict_get mapping task_id task_id"
  let ?f = "\<lambda>a. a\<lparr>a_task_id := ?g (a_task_id a)\<rparr>"
  let ?ys = "sort (remdups (map ?g (unscheduled_tasks result)))"
  have g: "?g (?g k) = ?g k" for k by (rule dict_get_idem [OF assms])
  have "map ?g ?ys = ?ys"
  proof (rule map_idI)
    fix y assume "y \<in> set ?ys"
    then obtain x where "y = ?g x" by auto
    then show "?g y = y" by (simp only: g)
  qed
  moreover have "sort (remdups ?ys) = ?ys"
    by (simp add: distinct_remdups_id sort_key_id_if_sorted)
  ultimately have u: "sort (remdups (map ?g ?ys)) = ?ys" by simp
  have f: "?f (?f a) = ?f a" for a by (simp add: g)
  have "map ?f (map ?f (assignments result)) = map ?f (assignments result)"
    by (simp add: g)
  then show "assignments (remap_schedule_result (remap_schedule_result result mapping) mapping)
      = assignments (remap_schedule_result result mapping)"
    by (simp only: remap_schedule_result_fields)
  show "unscheduled_tasks (remap_schedule_result (remap_schedule_result result mapping) mapping)
      = unscheduled_tasks (remap_schedule_result result mapping)"
    by (simp only: remap_schedule_result_fields u)
  show "objective_value (remap_schedule_result (remap_schedule_result result mapping) mapping)
      = objective_value (remap_schedule_result result mapping)"
    by (simp only: remap_schedule_result_fields)
  show "ScheduleResult.more (remap_schedule_result (remap_schedule_result result mapping) mapping)
      = ScheduleResult.more (remap_schedule_result result mapping)"
    by simp
qed

text \<open>
  Claim C9. \<^verbatim>\<open>_remap_schedule_result\<close> keeps the assignments in their order and changes
  only their task id, to the value that the mapping has for it (the id itself when it has
  none); it returns as unscheduled tasks the sorted list, without duplicates, of the
  remapped ids of the unscheduled tasks; and it keeps the objective value. Applied twice
  with one mapping it returns what it returns when applied once, whenever every value of the
  mapping is mapped to itself. The mapping that the service builds from task rows whose ids
  are UUIDs maps the id of every segment of a row to the id of the row, every value of it is
  mapped to itself, and so the remap step with it is idempotent.
\<close>

theorem remap_step:
  "assignments (remap_schedule_result result m)
     = map (\<lambda>a. a\<lparr>a_task_id := dict_get m (a_task_id a) (a_task_id a)\<rparr>) (assignments result)
   \<and> unscheduled_tasks (remap_schedule_result result m)
     = sorted_list_of_set ((\<lambda>tid. dict_get m tid tid) ` set (unscheduled_tasks result))
   \<and> sorted (unscheduled_tasks (remap_schedule_result result m))
   \<and> distinct (unscheduled_tasks (remap_schedule_result result m))
   \<and> objective_value (remap_schedule_result result m) = objective_value result
   \<and> ((\<forall>k v. m k = Some v \<longrightarrow> m v = Some v) \<longrightarrow>
        remap_schedule_result (remap_schedule_result result m) m = remap_schedule_result result m)
   \<and> ((\<forall>row \<in> set rows. uuid_string (id_str row)) \<longrightarrow>
        (\<forall>row \<in> set rows. \<forall>index < length (segment_duration (row_duration_minutes row)).
            map_of (schedule_mapping rows) (schedule_id (id_str row) index) = Some (id_str row))
        \<and> (\<forall>k v. map_of (schedule_mapping rows) k = Some v
               \<longrightarrow> map_of (schedule_mapping rows) v = Some v)
        \<and> remap_schedule_result (remap_schedule_result result (map_of (schedule_mapping rows)))
             (map_of (schedule_mapping rows))
           = remap_schedule_result result (map_of (schedule_mapping rows)))"
proof (intro conjI impI)
  show "assignments (remap_schedule_result result m)
     = map (\<lambda>a. a\<lparr>a_task_id := dict_get m (a_task_id a) (a_task_id a)\<rparr>) (assignments result)"
    by (rule remap_schedule_result_fields)
  have "sorted_list_of_set (set (map (\<lambda>tid. dict_get m tid tid) (unscheduled_tasks result)))
      = sort (remdups (map (\<lambda>tid. dict_get m tid tid) (unscheduled_tasks result)))"
    by (rule sorted_list_of_set_sort_remdups)
  then show "unscheduled_tasks (remap_schedule_result result m)
     = sorted_list_of_set ((\<lambda>tid. dict_get m tid tid) ` set (unscheduled_tasks result))"
    by (simp add: remap_schedule_result_fields)
  show "sorted (unscheduled_tasks (remap_schedule_result result m))"
    by (simp add: remap_schedule_result_fields)
  show "distinct (unscheduled_tasks (remap_schedule_result result m))"
    by (simp add: remap_schedule_result_fields)
  show "objective_value (remap_schedule_result result m) = objective_value result"
    by (rule remap_schedule_result_fields)
next
  assume "\<forall>k v. m k = Some v \<longrightarrow> m v = Some v"
  then show "remap_schedule_result (remap_schedule_result result m) m = remap_schedule_result result m"
    by (intro remap_schedule_result_idem) blast
next
  assume ids: "\<forall>row \<in> set rows. uuid_string (id_str row)"
  show "\<forall>row \<in> set rows. \<forall>index < length (segment_duration (row_duration_minutes row)).
            map_of (schedule_mapping rows) (schedule_id (id_str row) index) = Some (id_str row)"
    using schedule_mapping_segment [OF ids] by blast
  show v: "\<forall>k v. map_of (schedule_mapping rows) k = Some v
               \<longrightarrow> map_of (schedule_mapping rows) v = Some v"
    using schedule_mapping_value [OF ids] by blast
  then show "remap_schedule_result (remap_schedule_result result (map_of (schedule_mapping rows)))
             (map_of (schedule_mapping rows))
           = remap_schedule_result result (map_of (schedule_mapping rows))"
    by (intro remap_schedule_result_idem) blast
qed

theorem remap_step_witness:
  "map (\<lambda>row. segment_duration (row_duration_minutes row)) [row_one, row_two] = [[115, 15], [60]]
   \<and> remap_schedule_result segment_result (map_of (schedule_mapping [row_one, row_two]))
     = \<lparr>assignments =
          [\<lparr>a_task_id = ''7c9e6679-7425-40de-944b-e07fc1f90ae7'', a_start = at_minute 540,
            a_end = at_minute 655, deviation_minutes = 0, tardiness_minutes = 0\<rparr>,
           \<lparr>a_task_id = ''7c9e6679-7425-40de-944b-e07fc1f90ae7'', a_start = at_minute 655,
            a_end = at_minute 670, deviation_minutes = 0, tardiness_minutes = 0\<rparr>],
        unscheduled_tasks = [''16fd2706-8baf-433b-82eb-8c7fada847da'', ''x''],
        objective_value = Some 10000\<rparr>
   \<and> remap_schedule_result
        (remap_schedule_result segment_result (map_of (schedule_mapping [row_one, row_two])))
        (map_of (schedule_mapping [row_one, row_two]))
     = remap_schedule_result segment_result (map_of (schedule_mapping [row_one, row_two]))
   \<and> map_of (schedule_mapping [row_one, row_two]) (schedule_id (id_str row_one) 1)
     = Some (id_str row_one)"
proof -
  have ids: "\<forall>row \<in> set [row_one, row_two]. uuid_string (id_str row)" by code_simp
  have seg: "map (\<lambda>row. segment_duration (row_duration_minutes row)) [row_one, row_two]
      = [[115, 15], [60]]" by code_simp
  have e: "remap_schedule_result segment_result (map_of (schedule_mapping [row_one, row_two]))
     = \<lparr>assignments =
          [\<lparr>a_task_id = ''7c9e6679-7425-40de-944b-e07fc1f90ae7'', a_start = at_minute 540,
            a_end = at_minute 655, deviation_minutes = 0, tardiness_minutes = 0\<rparr>,
           \<lparr>a_task_id = ''7c9e6679-7425-40de-944b-e07fc1f90ae7'', a_start = at_minute 655,
            a_end = at_minute 670, deviation_minutes = 0, tardiness_minutes = 0\<rparr>],
        unscheduled_tasks = [''16fd2706-8baf-433b-82eb-8c7fada847da'', ''x''],
        objective_value = Some 10000\<rparr>" by code_simp
  note main = remap_step [of segment_result "map_of (schedule_mapping [row_one, row_two])"
      "[row_one, row_two]"]
  have r1: "row_one \<in> set [row_one, row_two]" by simp
  have i1: "1 < length (segment_duration (row_duration_minutes row_one))" by code_simp
  from main ids have
    idem: "remap_schedule_result
        (remap_schedule_result segment_result (map_of (schedule_mapping [row_one, row_two])))
        (map_of (schedule_mapping [row_one, row_two]))
     = remap_schedule_result segment_result (map_of (schedule_mapping [row_one, row_two]))"
    and a: "\<forall>row \<in> set [row_one, row_two].
        \<forall>index < length (segment_duration (row_duration_minutes row)).
            map_of (schedule_mapping [row_one, row_two]) (schedule_id (id_str row) index)
            = Some (id_str row)"
    by blast+
  from a r1 i1 have "map_of (schedule_mapping [row_one, row_two]) (schedule_id (id_str row_one) 1)
     = Some (id_str row_one)" by blast
  with seg e idem show ?thesis by (intro conjI)
qed

end
